theory Spec2Isabelle
  imports Main "HOL-Library.AList" "HOL-Library.Sublist"
begin

section \<open>Python strings\<close>

text \<open>
  A Python \<open>str\<close> is modelled as a \<open>string\<close> (a list of characters).  The
  functions below are the built-in string operations the adapters call.
\<close>

text \<open>\<open>sub in s\<close> for two strings: \<open>sub\<close> occurs somewhere in \<open>s\<close>.\<close>

fun str_contains :: "string \<Rightarrow> string \<Rightarrow> bool" where
  "str_contains [] sub = (sub = [])"
| "str_contains (c # cs) sub = (prefix sub (c # cs) \<or> str_contains cs sub)"

text \<open>\<open>s.split(sep)[0]\<close> for a one-character separator: the text before its first occurrence.\<close>

definition split_first :: "char \<Rightarrow> string \<Rightarrow> string" where
  "split_first sep s = takeWhile (\<lambda>c. c \<noteq> sep) s"

text \<open>\<open>s.split(sep)[-1]\<close>: the text after the last occurrence of the separator.\<close>

definition split_last :: "char \<Rightarrow> string \<Rightarrow> string" where
  "split_last sep s = rev (takeWhile (\<lambda>c. c \<noteq> sep) (rev s))"

text \<open>\<open>s.split(sep)\<close> for a one-character separator; the result is never empty.\<close>

fun split_on :: "char \<Rightarrow> string \<Rightarrow> string list" where
  "split_on sep [] = [[]]"
| "split_on sep (c # cs) =
     (if c = sep then [] # split_on sep cs
      else (case split_on sep cs of w # ws \<Rightarrow> (c # w) # ws | [] \<Rightarrow> [[c]]))"

text \<open>
  \<open>s.strip()\<close>.  Characters are code points below 256; among them \<open>str.isspace\<close>
  holds for the ten listed here and for 0x85 and 0xA0.
\<close>

definition is_space :: "char \<Rightarrow> bool" where
  "is_space c \<longleftrightarrow>
     c \<in> {CHR '' '', CHR 0x09, CHR 0x0A, CHR 0x0B, CHR 0x0C, CHR 0x0D,
          CHR 0x1C, CHR 0x1D, CHR 0x1E, CHR 0x1F, CHR 0x85, CHR 0xA0}"

definition strip :: "string \<Rightarrow> string" where
  "strip s = rev (dropWhile is_space (rev (dropWhile is_space s)))"

text \<open>
  \<open>s.replace(old, "")\<close>: every occurrence of \<open>old\<close> is deleted, scanning from the
  left without overlap; with an empty \<open>old\<close> the string is returned as it is.
\<close>

function remove_all :: "string \<Rightarrow> string \<Rightarrow> string" where
  "remove_all old [] = []"
| "remove_all old (c # cs) =
     (if old \<noteq> [] \<and> prefix old (c # cs) then remove_all old (drop (length old) (c # cs))
      else c # remove_all old cs)"
  by pat_completeness auto
termination
  by (relation "measure (\<lambda>(old, s). length s)") (auto simp: neq_Nil_conv)

text \<open>The formatted string \<open>f"{prefix}:{local_id}"\<close> of a namespaced identifier.\<close>

definition namespaced :: "string \<Rightarrow> string \<Rightarrow> string" where
  "namespaced pre local_id = pre @ '':'' @ local_id"

text \<open>
  The exceptions the adapters can raise on a well-typed input, with the key or
  attribute that was missing.
\<close>

datatype error = KeyError string | AttributeError string

text \<open>
  The methods \<open>str.casefold\<close>, \<open>str.lower\<close> and \<open>str.upper\<close> follow the Unicode
  tables of the interpreter, and the enumerations and tables of \<open>therapy.schemas\<close>,
  \<open>therapy.etl.base\<close> and \<open>therapy/__init__.py\<close> are not part of the sources at
  hand.  They are the fields of an environment that every adapter function takes:
  the three string methods; the values of the enumeration members that the code
  names (\<open>SourceName.WIKIDATA.value\<close> and so on); the member names of \<open>SourceName\<close>;
  and, as association lists, the tables that the code indexes with a computed key
  (\<open>NamespacePrefix[name].value\<close>, \<open>SourceIDAfterNamespace[name].value\<close>,
  \<open>IDENTIFIER_PREFIXES[key]\<close>), where a missing key raises \<open>KeyError\<close>.
\<close>

record env =
  casefold :: "string \<Rightarrow> string"
  lower :: "string \<Rightarrow> string"
  upper :: "string \<Rightarrow> string"
  SourceName_members :: "string list"
  SourceName_WIKIDATA :: string
  SourceName_CHEMIDPLUS :: string
  SourceName_DRUGBANK :: string
  SourceName_RXNORM :: string
  NamespacePrefix_WIKIDATA :: string
  NamespacePrefix_RXNORM :: string
  NamespacePrefix :: "(string \<times> string) list"
  SourceIDAfterNamespace :: "(string \<times> string) list"
  IDENTIFIER_PREFIXES :: "(string \<times> string) list"
  XREF_SOURCES :: "string list"
  ASSOC_WITH_SOURCES :: "string list"
  RXNORM_PRESCRIBABLE :: string

definition lookup :: "(string \<times> string) list \<Rightarrow> string \<Rightarrow> error + string" where
  "lookup table k = (case map_of table k of None \<Rightarrow> Inl (KeyError k) | Some v \<Rightarrow> Inr v)"

text \<open>
  A record under construction is a Python dictionary.  Its values are strings (or
  \<open>None\<close>) under some keys and lists of strings under the others; the model keeps
  the two kinds in two association lists, in insertion order.  A key is present in
  the dictionary when one of the two lists has it.
\<close>

record therapy =
  strs :: "(string \<times> string option) list"
  lists :: "(string \<times> string list) list"

definition empty_dict :: therapy where
  "empty_dict = \<lparr>strs = [], lists = []\<rparr>"

definition set_str :: "string \<Rightarrow> string \<Rightarrow> therapy \<Rightarrow> therapy" where
  "set_str k v d = d\<lparr>strs := AList.update k (Some v) (strs d)\<rparr>"

definition set_list :: "string \<Rightarrow> string list \<Rightarrow> therapy \<Rightarrow> therapy" where
  "set_list k v d = d\<lparr>lists := AList.update k v (lists d)\<rparr>"

definition del_list :: "string \<Rightarrow> therapy \<Rightarrow> therapy" where
  "del_list k d = d\<lparr>lists := AList.delete k (lists d)\<rparr>"

definition del_str :: "string \<Rightarrow> therapy \<Rightarrow> therapy" where
  "del_str k d = d\<lparr>strs := AList.delete k (strs d)\<rparr>"

text \<open>
  \<open>d[k].lower()\<close> and the like: the string under a key, for a method call on it.
  A missing key raises \<open>KeyError\<close>, the value \<open>None\<close> has no string methods.
\<close>

definition get_str :: "therapy \<Rightarrow> string \<Rightarrow> error + string" where
  "get_str d k =
     (case map_of (strs d) k of
        None \<Rightarrow> Inl (KeyError k)
      | Some None \<Rightarrow> Inl (AttributeError k)
      | Some (Some v) \<Rightarrow> Inr v)"

text \<open>
  \<open>len({a.casefold() for a in xs})\<close>, the number of distinct case-folded values,
  and \<open>list(set(xs))\<close>, whose order Python leaves open: the model keeps the order of
  first occurrence, and no statement below depends on the order.
\<close>

definition casefold_count :: "env \<Rightarrow> string list \<Rightarrow> nat" where
  "casefold_count e xs = card (set (map (casefold e) xs))"

definition list_set :: "string list \<Rightarrow> string list" where
  "list_set xs = remdups xs"

section \<open>The cross-reference backfill job (dynamodb\_revisions/add\_xrefs.py)\<close>

subsection \<open>The stored table\<close>

text \<open>
  The job reads its records through the low-level client, which returns every
  attribute as a typed value: \<open>{'S': ...}\<close>, \<open>{'L': [...]}\<close>, \<open>{'NULL': True}\<close> and so on.
  An item is a dictionary from attribute names to typed values, the table is the
  list of its items in scan order.
\<close>

datatype attr_value =
    S string
  | N string
  | BOOL bool
  | NULL bool
  | L "attr_value list"
  | SS "string list"

type_synonym item = "(string \<times> attr_value) list"

text \<open>
  An update expression of \<open>Table.update_item\<close>: \<open>set a=:v, ...\<close> assigns attributes,
  \<open>remove a\<close> deletes one.  The job uses no other form.
\<close>

datatype update_expression =
    Set "(string \<times> attr_value) list"
  | Remove string

fun set_attrs :: "(string \<times> attr_value) list \<Rightarrow> item \<Rightarrow> item" where
  "set_attrs [] it = it"
| "set_attrs ((a, v) # avs) it = set_attrs avs (AList.update a v it)"

fun apply_update :: "update_expression \<Rightarrow> item \<Rightarrow> item" where
  "apply_update (Set avs) it = set_attrs avs it"
| "apply_update (Remove a) it = AList.delete a it"

text \<open>
  The primary key of the table is the pair of the attributes \<open>label_and_type\<close> and
  \<open>concept_id\<close>, both strings.
\<close>

type_synonym key = "string \<times> string"

definition has_key :: "key \<Rightarrow> item \<Rightarrow> bool" where
  "has_key k it \<longleftrightarrow>
     map_of it ''label_and_type'' = Some (S (fst k)) \<and> map_of it ''concept_id'' = Some (S (snd k))"

definition key_item :: "key \<Rightarrow> item" where
  "key_item k = [(''label_and_type'', S (fst k)), (''concept_id'', S (snd k))]"

text \<open>
  The store's update of one item: the item that has the key is changed in place;
  when no item has the key, the store creates one from the key and applies the
  update to it.
\<close>

fun update_rows :: "key \<Rightarrow> update_expression \<Rightarrow> item list \<Rightarrow> item list" where
  "update_rows k u [] = [apply_update u (key_item k)]"
| "update_rows k u (r # rs) =
     (if has_key k r then apply_update u r # rs else r # update_rows k u rs)"

text \<open>
  The database handle: the rows of the \<open>therapies\<close> table, the number of rows one
  \<open>scan\<close> call evaluates (\<open>Suc (page_rows db)\<close>, at least one), and the log of the
  \<open>update_item\<close> requests sent so far.
\<close>

record database =
  therapies :: "item list"
  page_rows :: nat
  writes :: "(key \<times> update_expression) list"

definition table_update_item :: "database \<Rightarrow> key \<Rightarrow> update_expression \<Rightarrow> database" where
  "table_update_item db k u =
     db\<lparr>therapies := update_rows k u (therapies db), writes := writes db @ [(k, u)]\<rparr>"

definition get_item :: "database \<Rightarrow> key \<Rightarrow> item option" where
  "get_item db k = find (has_key k) (therapies db)"

text \<open>
  \<open>ddb_client.scan\<close> with the filter \<open>src_name <> 'ChEMBL'\<close>.  The continuation token
  (\<open>LastEvaluatedKey\<close>, \<open>ExclusiveStartKey\<close>) is the position of the next row to
  evaluate; a page evaluates \<open>Suc (page_rows db)\<close> rows and returns those that pass
  the filter.  The token is absent once the last row was evaluated.
\<close>

definition src_name_filter :: "item \<Rightarrow> bool" where
  "src_name_filter it \<longleftrightarrow> map_of it ''src_name'' \<noteq> Some (S ''ChEMBL'')"

definition scan :: "database \<Rightarrow> nat option \<Rightarrow> item list \<times> nat option" where
  "scan db start =
     (let pos = (case start of None \<Rightarrow> 0 | Some p \<Rightarrow> p);
          nxt = pos + Suc (page_rows db)
      in (filter src_name_filter (take (Suc (page_rows db)) (drop pos (therapies db))),
          if nxt < length (therapies db) then Some nxt else None))"

subsection \<open>Classification\<close>

text \<open>
  The inner loop of \<open>_add_xrefs_other_ids\<close>: every previous identifier goes to
  \<open>other_ids\<close> when the text before its first colon is a normalizer source prefix,
  and to \<open>xrefs\<close> otherwise.  \<open>prev_id['S']\<close> raises \<open>KeyError\<close> on a list element
  that is not a string.
\<close>

fun add_prev_ids ::
  "string set \<Rightarrow> attr_value list \<Rightarrow> string list \<times> string list \<Rightarrow> error + string list \<times> string list"
where
  "add_prev_ids normalizer_srcs [] (other_ids, xrefs) = Inr (other_ids, xrefs)"
| "add_prev_ids normalizer_srcs (S other_id_xref # prev_ids) (other_ids, xrefs) =
     (if split_first CHR '':'' other_id_xref \<in> normalizer_srcs
      then add_prev_ids normalizer_srcs prev_ids (other_ids @ [other_id_xref], xrefs)
      else add_prev_ids normalizer_srcs prev_ids (other_ids, xrefs @ [other_id_xref]))"
| "add_prev_ids normalizer_srcs (_ # prev_ids) (other_ids, xrefs) = Inl (KeyError ''S'')"

text \<open>
  \<open>_add_xrefs_other_ids\<close>: nothing happens when the attribute is absent or holds the
  null marker; \<open>record[attr]['L']\<close> raises \<open>KeyError\<close> on any other value that is not
  a list.
\<close>

definition add_xrefs_other_ids ::
  "item \<Rightarrow> string \<Rightarrow> string list \<times> string list \<Rightarrow> string set \<Rightarrow> error + string list \<times> string list"
where
  "add_xrefs_other_ids record attr acc normalizer_srcs =
     (case map_of record attr of
        None \<Rightarrow> Inr acc
      | Some (NULL _) \<Rightarrow> Inr acc
      | Some (L prev_ids) \<Rightarrow> add_prev_ids normalizer_srcs prev_ids acc
      | Some _ \<Rightarrow> Inl (KeyError ''L''))"

text \<open>
  The two calls of the loop \<open>for attr in ['other_identifiers', 'xrefs']\<close>, starting
  from two empty lists.
\<close>

definition reclassify :: "string set \<Rightarrow> item \<Rightarrow> error + string list \<times> string list" where
  "reclassify normalizer_srcs record =
     (case add_xrefs_other_ids record ''other_identifiers'' ([], []) normalizer_srcs of
        Inl e \<Rightarrow> Inl e
      | Inr acc \<Rightarrow> add_xrefs_other_ids record ''xrefs'' acc normalizer_srcs)"

subsection \<open>Writing back\<close>

text \<open>
  \<open>update_item\<close>: one request that sets both attributes, then one request removing
  \<open>xrefs\<close> when that list is empty, then one removing \<open>other_identifiers\<close> when that
  list is empty.
\<close>

definition update_item ::
  "database \<Rightarrow> string \<Rightarrow> string \<Rightarrow> string list \<Rightarrow> string list \<Rightarrow> database"
where
  "update_item db record_identity record_concept_id other_ids xrefs =
     (let k = (record_identity, record_concept_id);
          db1 = table_update_item db k
                  (Set [(''other_identifiers'', L (map S other_ids)), (''xrefs'', L (map S xrefs))]);
          db2 = (if xrefs = [] then table_update_item db1 k (Remove ''xrefs'') else db1);
          db3 = (if other_ids = [] then table_update_item db2 k (Remove ''other_identifiers'')
                 else db2)
      in db3)"

text \<open>
  The body of the loop over the records of one page.  \<open>record['label_and_type']['S']\<close>
  and \<open>record['concept_id']['S']\<close> raise \<open>KeyError\<close> when the attribute is missing or
  is not a string.
\<close>

definition process_record :: "string set \<Rightarrow> database \<Rightarrow> item \<Rightarrow> error + database" where
  "process_record normalizer_srcs db record =
     (case map_of record ''label_and_type'' of
        Some (S record_identity) \<Rightarrow>
          (case map_of record ''concept_id'' of
             Some (S record_concept_id) \<Rightarrow>
               if str_contains record_identity ''##identity''
               then (case reclassify normalizer_srcs record of
                       Inl e \<Rightarrow> Inl e
                     | Inr (other_ids, xrefs) \<Rightarrow>
                         Inr (update_item db record_identity record_concept_id other_ids xrefs))
               else Inr db
           | Some _ \<Rightarrow> Inl (KeyError ''S'')
           | None \<Rightarrow> Inl (KeyError ''concept_id''))
      | Some _ \<Rightarrow> Inl (KeyError ''S'')
      | None \<Rightarrow> Inl (KeyError ''label_and_type''))"

fun process_records :: "string set \<Rightarrow> database \<Rightarrow> item list \<Rightarrow> error + database" where
  "process_records normalizer_srcs db [] = Inr db"
| "process_records normalizer_srcs db (record # records) =
     (case process_record normalizer_srcs db record of
        Inl e \<Rightarrow> Inl e
      | Inr db' \<Rightarrow> process_records normalizer_srcs db' records)"

text \<open>
  The \<open>while True\<close> loop of \<open>update_xrefs_other_ids\<close>: scan a page, process its
  records, stop when the scan returned no continuation token.  The loop has no
  bound of its own, so its result is optional: \<open>None\<close> stands for a run that never
  returns.
\<close>

partial_function (option) scan_loop ::
  "string set \<Rightarrow> database \<Rightarrow> nat option \<Rightarrow> (error + database) option"
where
  "scan_loop normalizer_srcs db last_evaluated_key =
     (case scan db last_evaluated_key of
        (records, last_evaluated_key') \<Rightarrow>
          (case process_records normalizer_srcs db records of
             Inl e \<Rightarrow> Some (Inl e)
           | Inr db' \<Rightarrow>
               (case last_evaluated_key' of
                  None \<Rightarrow> Some (Inr db')
                | Some p \<Rightarrow> scan_loop normalizer_srcs db' (Some p))))"

text \<open>
  \<open>update_xrefs_other_ids\<close>.  The set \<open>normalizer_srcs\<close> is built from the
  enumerations \<open>NamespacePrefix\<close> and \<open>SourceName\<close> of \<open>therapy.schemas\<close>; it is a
  parameter here.
\<close>

definition update_xrefs_other_ids :: "string set \<Rightarrow> database \<Rightarrow> (error + database) option" where
  "update_xrefs_other_ids normalizer_srcs db = scan_loop normalizer_srcs db None"

subsection \<open>Observations on the store\<close>

text \<open>The attributes an update expression assigns or deletes.\<close>

fun touched :: "update_expression \<Rightarrow> string set" where
  "touched (Set avs) = fst ` set avs"
| "touched (Remove a) = {a}"

definition keeps_key :: "update_expression \<Rightarrow> bool" where
  "keeps_key u \<longleftrightarrow> ''label_and_type'' \<notin> touched u \<and> ''concept_id'' \<notin> touched u"

text \<open>
  What the requests of one \<open>update_item\<close> call do to the item they address, in the
  order in which they are sent.
\<close>

definition write_back :: "string list \<Rightarrow> string list \<Rightarrow> item \<Rightarrow> item" where
  "write_back other_ids xrefs it =
     (let it1 = apply_update
                  (Set [(''other_identifiers'', L (map S other_ids)), (''xrefs'', L (map S xrefs))]) it;
          it2 = (if xrefs = [] then apply_update (Remove ''xrefs'') it1 else it1)
      in if other_ids = [] then apply_update (Remove ''other_identifiers'') it2 else it2)"

text \<open>Two items that agree on every attribute other than \<open>other_identifiers\<close> and \<open>xrefs\<close>.\<close>

definition same_but_ids :: "item \<Rightarrow> item \<Rightarrow> bool" where
  "same_but_ids it it' \<longleftrightarrow>
     (\<forall>a. a \<noteq> ''other_identifiers'' \<longrightarrow> a \<noteq> ''xrefs'' \<longrightarrow> map_of it' a = map_of it a)"

definition keeps_rows :: "database \<Rightarrow> database \<Rightarrow> bool" where
  "keeps_rows db db' \<longleftrightarrow>
     (\<forall>k it. get_item db k = Some it \<longrightarrow> (\<exists>it'. get_item db' k = Some it' \<and> same_but_ids it it'))"

definition ids_writes :: "database \<Rightarrow> database \<Rightarrow> bool" where
  "ids_writes db db' \<longleftrightarrow>
     (\<exists>ws. writes db' = writes db @ ws \<and>
        (\<forall>w\<in>set ws. touched (snd w) \<subseteq> {''other_identifiers'', ''xrefs''}))"

definition preserves :: "database \<Rightarrow> database \<Rightarrow> bool" where
  "preserves db db' \<longleftrightarrow> keeps_rows db db' \<and> ids_writes db db'"

subsection \<open>Notions for the whole run\<close>

text \<open>The two key attributes of an item, as stored.\<close>

definition key_attrs :: "item \<Rightarrow> attr_value option \<times> attr_value option" where
  "key_attrs it = (map_of it ''label_and_type'', map_of it ''concept_id'')"

text \<open>
  The records on which the loop body raises nothing: both key attributes are
  strings and, for an identity record, the classification succeeds.
\<close>

definition processable :: "string set \<Rightarrow> item \<Rightarrow> bool" where
  "processable srcs r \<longleftrightarrow>
     (\<exists>ri rc. has_key (ri, rc) r \<and>
        (str_contains ri ''##identity'' \<longrightarrow> (\<exists>p. reclassify srcs r = Inr p)))"

text \<open>
  What the job does to the stored item of a record it processes: an identity
  record gets its two lists written back, any other record is left alone.
\<close>

definition migrate :: "string set \<Rightarrow> item \<Rightarrow> item" where
  "migrate srcs r =
     (case map_of r ''label_and_type'' of
        Some (S ri) \<Rightarrow>
          if str_contains ri ''##identity''
          then (case reclassify srcs r of Inl e \<Rightarrow> r | Inr (other_ids, xrefs) \<Rightarrow> write_back other_ids xrefs r)
          else r
      | _ \<Rightarrow> r)"

text \<open>The same for any row of the table: rows of ChEMBL are not returned by the scan.\<close>

definition migrated :: "string set \<Rightarrow> item \<Rightarrow> item" where
  "migrated srcs r = (if src_name_filter r then migrate srcs r else r)"

text \<open>
  Two states of the table with the same rows from position \<open>m\<close> on, the same keys
  in the same order, and the same page size.
\<close>

definition same_tail :: "nat \<Rightarrow> database \<Rightarrow> database \<Rightarrow> bool" where
  "same_tail m db db' \<longleftrightarrow>
     drop m (therapies db') = drop m (therapies db) \<and>
     map key_attrs (therapies db') = map key_attrs (therapies db) \<and>
     page_rows db' = page_rows db"

text \<open>The row at which a scan with the given continuation token starts.\<close>

definition token_pos :: "nat option \<Rightarrow> nat" where
  "token_pos tok = (case tok of None \<Rightarrow> 0 | Some p \<Rightarrow> p)"

text \<open>The requests that one call of \<open>update_item\<close> sends, in order.\<close>

definition item_requests :: "key \<Rightarrow> string list \<Rightarrow> string list \<Rightarrow> (key \<times> update_expression) list" where
  "item_requests k other_ids xrefs =
     [(k, Set [(''other_identifiers'', L (map S other_ids)), (''xrefs'', L (map S xrefs))])] @
     (if xrefs = [] then [(k, Remove ''xrefs'')] else []) @
     (if other_ids = [] then [(k, Remove ''other_identifiers'')] else [])"
subsection \<open>A stored table to run the job on\<close>

text \<open>
  A registry of normalizer prefixes, and a table holding one RxNorm identity
  record whose \<open>xrefs\<close> carries the null marker.
\<close>

definition example_srcs :: "string set" where
  "example_srcs = {''chembl'', ''ncit'', ''drugbank'', ''rxcui'', ''chemidplus'', ''wikidata''}"

definition example_item :: item where
  "example_item =
     [(''label_and_type'', S ''rxcui:1191##identity''), (''concept_id'', S ''rxcui:1191''),
      (''src_name'', S ''RxNorm''), (''label'', S ''aspirin''),
      (''other_identifiers'', L [S ''drugbank:DB00945'']), (''xrefs'', NULL True)]"

definition example_key :: key where
  "example_key = (''rxcui:1191##identity'', ''rxcui:1191'')"

definition example_db :: database where
  "example_db = \<lparr>therapies = [example_item], page_rows = 0, writes = []\<rparr>"

definition example_migrated_item :: item where
  "example_migrated_item =
     [(''label_and_type'', S ''rxcui:1191##identity''), (''concept_id'', S ''rxcui:1191''),
      (''src_name'', S ''RxNorm''), (''label'', S ''aspirin''),
      (''other_identifiers'', L [S ''drugbank:DB00945''])]"

definition example_writes :: "(key \<times> update_expression) list" where
  "example_writes =
     [(example_key, Set [(''other_identifiers'', L [S ''drugbank:DB00945'']), (''xrefs'', L [])]),
      (example_key, Remove ''xrefs'')]"

definition example_migrated :: database where
  "example_migrated = \<lparr>therapies = [example_migrated_item], page_rows = 0, writes = example_writes\<rparr>"

definition example_rerun :: database where
  "example_rerun =
     \<lparr>therapies = [example_migrated_item], page_rows = 0, writes = example_writes @ example_writes\<rparr>"

section \<open>The Wikidata adapter (therapy/etl/wikidata.py)\<close>

text \<open>
  The source file is a JSON list of flat records, one per result row of the SPARQL
  query; every value is a string.
\<close>

type_synonym json_record = "(string \<times> string) list"

text \<open>
  The loop \<open>for key in IDENTIFIER_PREFIXES.keys()\<close> of \<open>_transform_data\<close>,
  with the two lists it fills.  The key of a CAS registry number is replaced by
  the value of \<open>SourceName.CHEMIDPLUS\<close> before it is classified; an identifier goes
  to \<open>other_ids\<close> when the upper-cased key is the name of a normalizer source, with
  the token of \<open>SourceIDAfterNamespace\<close> in front of the local id unless the key is
  \<open>chembl\<close>, and to \<open>xrefs\<close> otherwise.
\<close>

fun format_identifiers ::
  "env \<Rightarrow> json_record \<Rightarrow> string list \<Rightarrow> string list \<times> string list \<Rightarrow>
     error + string list \<times> string list"
where
  "format_identifiers e record [] (other_ids, xrefs) = Inr (other_ids, xrefs)"
| "format_identifiers e record (key0 # keys) (other_ids, xrefs) =
     (case map_of record key0 of
        None \<Rightarrow> format_identifiers e record keys (other_ids, xrefs)
      | Some other_id \<Rightarrow>
          (let key = (if upper e key0 = ''CASREGISTRY'' then SourceName_CHEMIDPLUS e else key0)
           in if upper e key \<in> set (SourceName_members e)
              then if key \<noteq> ''chembl''
                   then (case lookup (IDENTIFIER_PREFIXES e) key of
                           Inl err \<Rightarrow> Inl err
                         | Inr pre \<Rightarrow>
                             (case lookup (SourceIDAfterNamespace e) (upper e key) of
                                Inl err \<Rightarrow> Inl err
                              | Inr tok \<Rightarrow>
                                  format_identifiers e record keys
                                    (other_ids @ [namespaced pre (tok @ other_id)], xrefs)))
                   else (case lookup (IDENTIFIER_PREFIXES e) key of
                           Inl err \<Rightarrow> Inl err
                         | Inr pre \<Rightarrow>
                             format_identifiers e record keys
                               (other_ids @ [namespaced pre other_id], xrefs))
              else (case lookup (IDENTIFIER_PREFIXES e) key of
                      Inl err \<Rightarrow> Inl err
                    | Inr pre \<Rightarrow>
                        format_identifiers e record keys
                          (other_ids, xrefs @ [namespaced pre other_id]))))"

text \<open>The item built for a concept id that is seen for the first time.\<close>

definition new_item :: "env \<Rightarrow> json_record \<Rightarrow> string \<Rightarrow> error + therapy" where
  "new_item e record concept_id =
     (case format_identifiers e record (map fst (IDENTIFIER_PREFIXES e)) ([], []) of
        Inl err \<Rightarrow> Inl err
      | Inr (other_ids, xrefs) \<Rightarrow>
          (let item1 = set_str ''label_and_type'' (lower e concept_id @ ''##identity'') empty_dict;
               item2 = set_str ''concept_id'' concept_id item1;
               item3 = set_str ''src_name'' (SourceName_WIKIDATA e) item2;
               item4 = set_list ''other_identifiers'' other_ids item3;
               item5 = set_list ''xrefs'' xrefs item4
           in Inr (case map_of record ''itemLabel'' of
                     None \<Rightarrow> item5
                   | Some l \<Rightarrow> set_str ''label'' l item5)))"

text \<open>
  One round of the loop \<open>for record in records\<close>, on the dictionary \<open>items\<close>:
  the item is created when its concept id is new, then the alias of the record, if
  it has one, is appended to the aliases of the item.
\<close>

definition add_alias :: "string \<Rightarrow> therapy \<Rightarrow> therapy" where
  "add_alias alias item =
     (case map_of (lists item) ''aliases'' of
        Some aliases \<Rightarrow> set_list ''aliases'' (aliases @ [alias]) item
      | None \<Rightarrow> set_list ''aliases'' [alias] item)"

definition transform_record ::
  "env \<Rightarrow> (string \<times> therapy) list \<Rightarrow> json_record \<Rightarrow> error + (string \<times> therapy) list"
where
  "transform_record e items record =
     (case map_of record ''item'' of
        None \<Rightarrow> Inl (KeyError ''item'')
      | Some uri \<Rightarrow>
          (let record_id = split_last CHR ''/'' uri;
               concept_id = namespaced (NamespacePrefix_WIKIDATA e) record_id
           in case (if map_of items concept_id = None
                    then (case new_item e record concept_id of
                            Inl err \<Rightarrow> Inl err
                          | Inr item \<Rightarrow> Inr (AList.update concept_id item items))
                    else Inr items) of
                Inl err \<Rightarrow> Inl err
              | Inr items1 \<Rightarrow>
                  (case map_of record ''alias'' of
                     None \<Rightarrow> Inr items1
                   | Some alias \<Rightarrow>
                       (case map_of items1 concept_id of
                          None \<Rightarrow> Inl (KeyError concept_id)
                        | Some item \<Rightarrow>
                            Inr (AList.update concept_id (add_alias alias item) items1)))))"

fun transform_records ::
  "env \<Rightarrow> (string \<times> therapy) list \<Rightarrow> json_record list \<Rightarrow> error + (string \<times> therapy) list"
where
  "transform_records e items [] = Inr items"
| "transform_records e items (record # records) =
     (case transform_record e items record of
        Inl err \<Rightarrow> Inl err
      | Inr items' \<Rightarrow> transform_records e items' records)"

text \<open>
  \<open>Wikidata._load_therapy\<close>: the aliases lose their duplicates, and the whole
  attribute when more than 20 of them differ after case folding; the item is
  written, followed by one look-up record for each lower-cased alias and one for
  the label.  The result is the list of the records handed to \<open>batch.put_item\<close>,
  in order, and the exception if one is raised: \<open>item['concept_id'].lower()\<close> is
  evaluated after the item is written, \<open>item['label'].lower()\<close> after the look-up
  records of the aliases are.
\<close>

definition wikidata_cap :: "env \<Rightarrow> therapy \<Rightarrow> therapy" where
  "wikidata_cap e item =
     (case map_of (lists item) ''aliases'' of
        None \<Rightarrow> item
      | Some aliases \<Rightarrow>
          (let item1 = set_list ''aliases'' (list_set aliases) item
           in if casefold_count e (list_set aliases) > 20 then del_list ''aliases'' item1
              else item1))"

definition lookup_record :: "string \<Rightarrow> string \<Rightarrow> string \<Rightarrow> therapy" where
  "lookup_record pk concept_id_lower src =
     set_str ''src_name'' src
       (set_str ''concept_id'' concept_id_lower (set_str ''label_and_type'' pk empty_dict))"

definition alias_records :: "env \<Rightarrow> therapy \<Rightarrow> string \<Rightarrow> therapy list" where
  "alias_records e item concept_id_lower =
     (case map_of (lists item) ''aliases'' of
        None \<Rightarrow> []
      | Some aliases \<Rightarrow>
          map (\<lambda>alias. lookup_record (alias @ ''##alias'') concept_id_lower (SourceName_WIKIDATA e))
            (list_set (map (lower e) aliases)))"

definition wikidata_load_therapy :: "env \<Rightarrow> therapy \<Rightarrow> therapy list \<times> error option" where
  "wikidata_load_therapy e item0 =
     (let item = wikidata_cap e item0
      in case get_str item ''concept_id'' of
           Inl err \<Rightarrow> ([item], Some err)
         | Inr concept_id \<Rightarrow>
             (let concept_id_lower = lower e concept_id;
                  puts = item # alias_records e item concept_id_lower
              in case map_of (strs item) ''label'' of
                   None \<Rightarrow> (puts, None)
                 | Some None \<Rightarrow> (puts, Some (AttributeError ''label''))
                 | Some (Some l) \<Rightarrow>
                     (puts @ [lookup_record (lower e l @ ''##label'') concept_id_lower
                                (SourceName_WIKIDATA e)],
                      None)))"

text \<open>
  The loop \<open>for item in items.values()\<close>: it stops at the first exception, with
  the records written until then.
\<close>

fun load_items :: "env \<Rightarrow> therapy list \<Rightarrow> therapy list \<times> error option" where
  "load_items e [] = ([], None)"
| "load_items e (item # items) =
     (case wikidata_load_therapy e item of
        (puts, Some err) \<Rightarrow> (puts, Some err)
      | (puts, None) \<Rightarrow> (case load_items e items of (puts', r) \<Rightarrow> (puts @ puts', r)))"

text \<open>
  \<open>Wikidata._transform_data\<close>: the records of the file are grouped by entity, then
  every item is loaded.  Nothing is written when the grouping raises.
\<close>

definition wikidata_transform_data :: "env \<Rightarrow> json_record list \<Rightarrow> therapy list \<times> error option" where
  "wikidata_transform_data e records =
     (case transform_records e [] records of
        Inl err \<Rightarrow> ([], Some err)
      | Inr items \<Rightarrow> load_items e (map snd items))"

section \<open>The DrugBank adapter (therapy/etl/drugbank.py)\<close>

text \<open>
  An element of the parsed XML tree: its tag, its attributes, its text and its
  child elements.  Iterating over an element yields its children.
\<close>

datatype element = Element (tag: string) (attrib: "(string \<times> string) list") (text_of: string)
  (children: "element list")

text \<open>
  One round of the loop \<open>for label_type in ['trade_names', 'aliases']\<close> of
  \<open>DrugBank._load_therapy\<close>: an attribute that is empty, or has more than 20 values
  that differ after case folding, is deleted.
\<close>

definition cap_attribute :: "env \<Rightarrow> string \<Rightarrow> therapy \<Rightarrow> therapy" where
  "cap_attribute e label_type params =
     (case map_of (lists params) label_type of
        None \<Rightarrow> params
      | Some vs \<Rightarrow>
          if vs = [] \<or> casefold_count e vs > 20 then del_list label_type params else params)"

text \<open>
  \<open>DrugBank._load_therapy\<close>.  The result is the record handed to \<open>batch.put_item\<close>,
  which is also what \<open>params\<close> holds afterwards.  \<open>params['other_identifiers']\<close>
  raises \<open>KeyError\<close> when the key is missing.
\<close>

definition drugbank_load_therapy :: "env \<Rightarrow> therapy \<Rightarrow> error + therapy" where
  "drugbank_load_therapy e params =
     (case map_of (lists params) ''other_identifiers'' of
        None \<Rightarrow> Inl (KeyError ''other_identifiers'')
      | Some ids \<Rightarrow>
          (let params1 = (if ids = [] then del_list ''other_identifiers'' params else params)
           in Inr (cap_attribute e ''aliases'' (cap_attribute e ''trade_names'' params1))))"

text \<open>
  \<open>_load_synonyms\<close>: every English synonym that is not among the aliases yet is
  appended.  \<open>params['aliases']\<close> is read in every round of the loop and raises
  \<open>KeyError\<close> when the key is missing; the test of the language is evaluated only
  for a new text, and \<open>alias.attrib['language']\<close> raises \<open>KeyError\<close> when the
  attribute is missing.  The loop runs over the children of the element.
\<close>

fun load_synonyms :: "element list \<Rightarrow> therapy \<Rightarrow> error + therapy" where
  "load_synonyms [] params = Inr params"
| "load_synonyms (alias # rest) params =
     (case map_of (lists params) ''aliases'' of
        None \<Rightarrow> Inl (KeyError ''aliases'')
      | Some aliases \<Rightarrow>
          if text_of alias \<notin> set aliases
          then (case map_of (attrib alias) ''language'' of
                  None \<Rightarrow> Inl (KeyError ''language'')
                | Some language \<Rightarrow>
                    if language = ''english''
                    then load_synonyms rest (set_list ''aliases'' (aliases @ [text_of alias]) params)
                    else load_synonyms rest params)
          else load_synonyms rest params)"

definition drugbank_load_synonyms :: "element \<Rightarrow> therapy \<Rightarrow> error + therapy" where
  "drugbank_load_synonyms el params = load_synonyms (children el) params"

text \<open>
  \<open>_load_international_brands\<close>: the name of every brand that is not among the
  aliases yet is appended.  \<open>find\<close> returns the first child with the tag, or
  \<open>None\<close>, which has no \<open>text\<close>; the name is read first, then \<open>params['aliases']\<close>.
\<close>

fun load_international_brands :: "string \<Rightarrow> element list \<Rightarrow> therapy \<Rightarrow> error + therapy" where
  "load_international_brands xmlns [] params = Inr params"
| "load_international_brands xmlns (international_brand # rest) params =
     (case find (\<lambda>c. tag c = xmlns @ ''name'') (children international_brand) of
        None \<Rightarrow> Inl (AttributeError ''text'')
      | Some n \<Rightarrow>
          (case map_of (lists params) ''aliases'' of
             None \<Rightarrow> Inl (KeyError ''aliases'')
           | Some aliases \<Rightarrow>
               if text_of n \<notin> set aliases
               then load_international_brands xmlns rest
                      (set_list ''aliases'' (aliases @ [text_of n]) params)
               else load_international_brands xmlns rest params))"

definition drugbank_load_international_brands :: "element \<Rightarrow> therapy \<Rightarrow> string \<Rightarrow> error + therapy" where
  "drugbank_load_international_brands el params xmlns =
     load_international_brands xmlns (children el) params"

section \<open>The RxNorm adapter (therapy/etl/rxnorm.py)\<close>

definition ALIASES :: "string list" where
  "ALIASES = [''SYN'', ''SY'', ''TMSY'', ''PM'', ''GN'', ''PT'', ''PEP'', ''CD'', ''ET'', ''RXN_PT'']"

definition TRADE_NAMES :: "string list" where
  "TRADE_NAMES = [''BD'', ''BN'', ''SBD'']"

definition RXNORM_XREFS :: "string list" where
  "RXNORM_XREFS = [''ATC'', ''CVX'', ''DRUGBANK'', ''MMSL'', ''MSH'', ''MTHCMSFRF'', ''MTHSPL'',
                   ''RXNORM'', ''USP'', ''VANDF'']"

text \<open>
  A row of the file \<open>RXNCONSO.RRF\<close>, which has eighteen columns; the adapter reads
  the columns 0, 11, 12, 13, 14 and 17.
\<close>

record row =
  col0 :: string
  col11 :: string
  col12 :: string
  col13 :: string
  col14 :: string
  col17 :: string

text \<open>
  A reference table of the adapter is a dictionary from strings to lists of
  strings.  \<open>_add_term_to_field\<close> works on such a table, and on the list-valued keys
  of a record.
\<close>

type_synonym table = "(string \<times> string list) list"

definition add_term_to_field :: "table \<Rightarrow> string \<Rightarrow> string \<Rightarrow> table" where
  "add_term_to_field data_dict field trm =
     (case map_of data_dict field of
        Some vs \<Rightarrow>
          if vs \<noteq> []
          then (if trm \<notin> set vs then AList.update field (vs @ [trm]) data_dict else data_dict)
          else AList.update field [trm] data_dict
      | None \<Rightarrow> AList.update field [trm] data_dict)"

definition add_term_to_record :: "therapy \<Rightarrow> string \<Rightarrow> string \<Rightarrow> therapy" where
  "add_term_to_record params field trm = params\<lparr>lists := add_term_to_field (lists params) field trm\<rparr>"

subsection \<open>The strength pattern\<close>

text \<open>
  \<open>re.sub(r"(\d*)(\d*\.)?\d+ (MG|UNT|ML)?(/(ML|HR|MG))?", "", term)\<close>.

  A match that starts at a given position is unique: digits, possibly a dot
  followed by at least one digit, and a space (with at least one digit before the
  space); then, greedily, one of the units when it follows, and one of the rates
  when it follows.  \<open>match_number\<close> returns the text after the number and the
  space, \<open>match_strength\<close> the text after the whole match.  The substitution
  deletes the leftmost match, then goes on behind it.
\<close>

definition is_digit :: "char \<Rightarrow> bool" where
  "is_digit c \<longleftrightarrow> c \<in> set ''0123456789''"

definition match_number :: "string \<Rightarrow> string option" where
  "match_number s =
     (let d1 = takeWhile is_digit s; r1 = dropWhile is_digit s
      in case r1 of
           [] \<Rightarrow> None
         | c # r \<Rightarrow>
             if c = CHR '' '' then (if d1 \<noteq> [] then Some r else None)
             else if c = CHR ''.''
             then (let d2 = takeWhile is_digit r; r2 = dropWhile is_digit r
                   in case r2 of
                        [] \<Rightarrow> None
                      | c2 # r3 \<Rightarrow> if c2 = CHR '' '' \<and> d2 \<noteq> [] then Some r3 else None)
             else None)"

fun drop_first_prefix :: "string list \<Rightarrow> string \<Rightarrow> string" where
  "drop_first_prefix [] s = s"
| "drop_first_prefix (p # ps) s =
     (if prefix p s then drop (length p) s else drop_first_prefix ps s)"

definition match_strength :: "string \<Rightarrow> string option" where
  "match_strength s =
     (case match_number s of
        None \<Rightarrow> None
      | Some r \<Rightarrow>
          Some (drop_first_prefix [''/ML'', ''/HR'', ''/MG'']
                  (drop_first_prefix [''MG'', ''UNT'', ''ML''] r)))"

function sub_strength :: "string \<Rightarrow> string" where
  "sub_strength [] = []"
| "sub_strength (c # cs) =
     (case match_strength (c # cs) of
        Some rest \<Rightarrow> sub_strength rest
      | None \<Rightarrow> c # sub_strength cs)"
  by pat_completeness auto
termination
proof (relation "measure length")
  show "wf (measure length)" by simp
next
  fix c :: char and cs rest :: string
  assume m: "match_strength (c # cs) = Some rest"
  have le: "length (drop_first_prefix ps s) \<le> length s" for ps s
    by (induction ps) auto
  have dw: "dropWhile is_digit s = x # r \<Longrightarrow> length r < length s" for s x r
    using length_dropWhile_le [of is_digit s] by simp
  have lt: "length r < length s" if "match_number s = Some r" for s r
  proof (cases "dropWhile is_digit s")
    case Nil
    with that show ?thesis by (simp add: match_number_def)
  next
    case (Cons x r1)
    note r1 = this
    show ?thesis
    proof (cases "x = CHR '' ''")
      case True
      with that r1 have "r = r1" by (simp add: match_number_def split: if_splits)
      with dw [OF r1] show ?thesis by simp
    next
      case False
      show ?thesis
      proof (cases "dropWhile is_digit r1")
        case Nil
        with that r1 False show ?thesis
          by (simp add: match_number_def split: if_splits del: dropWhile_eq_Nil_conv)
      next
        case (Cons y r3)
        with that r1 False have "r = r3"
          by (simp add: match_number_def split: if_splits)
        with dw [OF Cons] dw [OF r1] show ?thesis by simp
      qed
    qed
  qed
  from m obtain r where r: "match_number (c # cs) = Some r"
    and rest: "rest = drop_first_prefix [''/ML'', ''/HR'', ''/MG'']
                  (drop_first_prefix [''MG'', ''UNT'', ''ML''] r)"
    by (auto simp: match_strength_def split: option.splits)
  have "length rest \<le> length r"
    unfolding rest using le [of _ "drop_first_prefix [''MG'', ''UNT'', ''ML''] r"] le [of _ r]
    by (rule order_trans)
  with lt [OF r] show "(rest, c # cs) \<in> measure length" by simp
next
  fix c :: char and cs :: string
  show "(cs, c # cs) \<in> measure length" by simp
qed

subsection \<open>The first pass\<close>

text \<open>
  \<open>_get_brands\<close>, for a row of type SBDC.  The call of \<open>_add_term_to_field\<close> passes
  the brand as the field and the ingredient as the term.
\<close>

definition get_brands :: "row \<Rightarrow> table \<Rightarrow> table" where
  "get_brands row ingredient_to_brands =
     (let trm = col14 row;
          ingredients_brand = sub_strength trm;
          brand = split_first CHR '']'' (split_last CHR ''['' trm);
          ingredients = remove_all (''['' @ brand @ '']'') ingredients_brand
      in if CHR ''/'' \<in> set ingredients
         then fold (\<lambda>ingredient d. add_term_to_field d brand (strip ingredient))
                (split_on CHR ''/'' ingredients) ingredient_to_brands
         else add_term_to_field ingredient_to_brands brand (strip ingredients))"

text \<open>
  The loop over the drug forms in \<open>_add_str_field\<close>: the first drug form that
  occurs in the text is deleted from it, and what is left, stripped and in lower
  case, is the ingredient under which the brand is filed.
\<close>

fun add_sbdf :: "env \<Rightarrow> string list \<Rightarrow> string \<Rightarrow> string \<Rightarrow> table \<Rightarrow> table" where
  "add_sbdf e [] ingredient_strength brand sbdfs = sbdfs"
| "add_sbdf e (df # drug_forms) ingredient_strength brand sbdfs =
     (if str_contains ingredient_strength df
      then add_term_to_field sbdfs (lower e (strip (remove_all df ingredient_strength))) brand
      else add_sbdf e drug_forms ingredient_strength brand sbdfs)"

text \<open>
  \<open>_add_str_field\<close>.  It changes the record, the table of precise ingredients and
  the table of branded drug forms; the three are returned.
\<close>

definition add_str_field ::
  "env \<Rightarrow> therapy \<Rightarrow> row \<Rightarrow> table \<Rightarrow> string list \<Rightarrow> table \<Rightarrow> therapy \<times> table \<times> table"
where
  "add_str_field e params row precise_ingredient drug_forms sbdfs =
     (let trm = col14 row; term_type = col12 row; source = col11 row;
          params1 =
            (if (term_type = ''IN'' \<or> term_type = ''PIN'') \<and> source = ''RXNORM''
             then (let p = set_str ''label'' trm params
                   in if col17 row = ''4096''
                      then set_list ''approval_ratings'' [RXNORM_PRESCRIBABLE e] p else p)
             else if term_type \<in> set ALIASES then add_term_to_record params ''aliases'' trm
             else if term_type \<in> set TRADE_NAMES then add_term_to_record params ''trade_names'' trm
             else params)
      in if source = ''RXNORM''
         then (if term_type = ''SBDF''
               then (let brand = split_first CHR '']'' (split_last CHR ''['' trm);
                         ingredient_strength = remove_all (''['' @ brand @ '']'') trm
                     in (params1, precise_ingredient,
                         add_sbdf e drug_forms ingredient_strength brand sbdfs))
               else (params1, precise_ingredient, sbdfs))
         else if source = ''MSH''
         then (if term_type = ''MH''
               then (set_str ''PIN'' (col13 row) params1, precise_ingredient, sbdfs)
               else if term_type = ''PEP''
               then (params1, add_term_to_field precise_ingredient (col13 row) trm, sbdfs)
               else (params1, precise_ingredient, sbdfs))
         else (params1, precise_ingredient, sbdfs))"

text \<open>
  \<open>_add_xref_assoc\<close>.  \<open>NamespacePrefix[xref_assoc]\<close> and \<open>params["concept_id"]\<close>
  raise \<open>KeyError\<close> on a missing key.
\<close>

definition add_xref_assoc :: "env \<Rightarrow> therapy \<Rightarrow> row \<Rightarrow> error + therapy" where
  "add_xref_assoc e params row =
     (let ref = col11 row; lui = col13 row
      in if ref \<noteq> [] \<and> lui \<noteq> ''NOCODE''
         then (let xref_assoc = (if ref = ''MTHSPL'' then ''UNII'' else upper e (col11 row))
               in if xref_assoc \<in> set (XREF_SOURCES e)
                  then (case lookup (NamespacePrefix e) xref_assoc of
                          Inl err \<Rightarrow> Inl err
                        | Inr pre \<Rightarrow>
                            (let source_id = namespaced pre lui
                             in case map_of (strs params) ''concept_id'' of
                                  None \<Rightarrow> Inl (KeyError ''concept_id'')
                                | Some concept_id \<Rightarrow>
                                    if Some source_id \<noteq> concept_id
                                    then Inr (add_term_to_record params ''xrefs'' source_id)
                                    else Inr params))
                  else if xref_assoc \<in> set (ASSOC_WITH_SOURCES e)
                  then (case lookup (NamespacePrefix e) xref_assoc of
                          Inl err \<Rightarrow> Inl err
                        | Inr pre \<Rightarrow>
                            Inr (add_term_to_record params ''associated_with'' (namespaced pre lui)))
                  else Inr params)
         else Inr params)"

text \<open>
  The tables that \<open>_transform_data\<close> fills while it reads the file: the records by
  concept id, and the four reference tables.
\<close>

record tables =
  records :: "(string \<times> therapy) list"
  ingredient_to_brands :: table
  precise_ingredient_to_brand :: table
  ingredient_to_sbdf :: table
  brand_to_concept_id :: "(string \<times> string) list"

definition empty_tables :: tables where
  "empty_tables =
     \<lparr>records = [], ingredient_to_brands = [], precise_ingredient_to_brand = [],
      ingredient_to_sbdf = [], brand_to_concept_id = []\<rparr>"

text \<open>One round of the loop \<open>for row in rff_data\<close>.\<close>

definition transform_row :: "env \<Rightarrow> string list \<Rightarrow> tables \<Rightarrow> row \<Rightarrow> error + tables" where
  "transform_row e drug_forms st row =
     (if col11 row \<in> set RXNORM_XREFS
      then (let concept_id = namespaced (NamespacePrefix_RXNORM e) (col0 row);
                st1 = (if col12 row = ''BN'' \<and> col11 row = ''RXNORM''
                       then st\<lparr>brand_to_concept_id :=
                                 AList.update (col14 row) concept_id (brand_to_concept_id st)\<rparr>
                       else st)
            in if col12 row = ''SBDC'' \<and> col11 row = ''RXNORM''
               then Inr (st1\<lparr>ingredient_to_brands := get_brands row (ingredient_to_brands st1)\<rparr>)
               else (let record0 = (case map_of (records st1) concept_id of
                                      None \<Rightarrow> set_str ''concept_id'' concept_id empty_dict
                                    | Some r \<Rightarrow> r)
                     in case add_str_field e record0 row (precise_ingredient_to_brand st1)
                               drug_forms (ingredient_to_sbdf st1) of
                          (record1, precise_ingredient, sbdfs) \<Rightarrow>
                            (case add_xref_assoc e record1 row of
                               Inl err \<Rightarrow> Inl err
                             | Inr record2 \<Rightarrow>
                                 Inr (st1\<lparr>records := AList.update concept_id record2 (records st1),
                                          precise_ingredient_to_brand := precise_ingredient,
                                          ingredient_to_sbdf := sbdfs\<rparr>))))
      else Inr st)"

fun transform_rows :: "env \<Rightarrow> string list \<Rightarrow> tables \<Rightarrow> row list \<Rightarrow> error + tables" where
  "transform_rows e drug_forms st [] = Inr st"
| "transform_rows e drug_forms st (row # rows) =
     (case transform_row e drug_forms st row of
        Inl err \<Rightarrow> Inl err
      | Inr st' \<Rightarrow> transform_rows e drug_forms st' rows)"

subsection \<open>The second pass\<close>

text \<open>
  \<open>_get_trade_names\<close>.  The labels are the lower-cased label of the record and the
  lower-cased precise ingredients filed under its \<open>PIN\<close>; for each label, the values
  of every entry of \<open>ingredient_brands\<close> whose lower-cased key equals the label are
  added to the trade names, and at the end the entries of \<open>sbdfs\<close> under the label
  of the record.  \<open>add_terms\<close> is the loop that adds the terms of a list, one
  after the other.
\<close>

definition add_terms :: "therapy \<Rightarrow> string \<Rightarrow> string list \<Rightarrow> therapy" where
  "add_terms record field tns = fold (\<lambda>tn r. add_term_to_record r field tn) tns record"

definition get_trade_names :: "env \<Rightarrow> therapy \<Rightarrow> table \<Rightarrow> table \<Rightarrow> table \<Rightarrow> error + therapy" where
  "get_trade_names e record precise_ingredient ingredient_brands sbdfs =
     (case get_str record ''label'' of
        Inl err \<Rightarrow> Inl err
      | Inr l \<Rightarrow>
          (let record_label = lower e l;
               labels = record_label #
                 (case map_of (strs record) ''PIN'' of
                    Some (Some pin) \<Rightarrow>
                      (case map_of precise_ingredient pin of
                         Some pins \<Rightarrow> map (lower e) pins
                       | None \<Rightarrow> [])
                  | _ \<Rightarrow> []);
               record1 =
                 fold (\<lambda>label r.
                         add_terms r ''trade_names''
                           (list_set (concat (map snd
                              (filter (\<lambda>(key, val). label = lower e key) ingredient_brands)))))
                   labels record
           in Inr (case map_of sbdfs record_label of
                     Some tns \<Rightarrow> add_terms record1 ''trade_names'' tns
                   | None \<Rightarrow> record1)))"

text \<open>
  \<open>_load_brand_concepts\<close>: for every trade name of the record that the table of
  brands maps to a non-empty concept id, one record of type \<open>rx_brand\<close> is written;
  its \<open>label_and_type\<close> is made of the concept id of the brand, its \<open>concept_id\<close> is
  the one of the record.  The result is the list of the records written.
\<close>

fun brand_items :: "env \<Rightarrow> therapy \<Rightarrow> (string \<times> string) list \<Rightarrow> string list \<Rightarrow> error + therapy list" where
  "brand_items e record brands [] = Inr []"
| "brand_items e record brands (tn # tns) =
     (case map_of brands tn of
        None \<Rightarrow> brand_items e record brands tns
      | Some b \<Rightarrow>
          if b = [] then brand_items e record brands tns
          else (case map_of (strs record) ''concept_id'' of
                  None \<Rightarrow> Inl (KeyError ''concept_id'')
                | Some concept_id \<Rightarrow>
                    (case brand_items e record brands tns of
                       Inl err \<Rightarrow> Inl err
                     | Inr items \<Rightarrow>
                         Inr (\<lparr>strs = [(''label_and_type'', Some (b @ ''##rx_brand'')),
                                       (''concept_id'', concept_id),
                                       (''src_name'', Some (SourceName_RXNORM e)),
                                       (''item_type'', Some ''rx_brand'')],
                               lists = []\<rparr> # items))))"

definition load_brand_concepts :: "env \<Rightarrow> therapy \<Rightarrow> (string \<times> string) list \<Rightarrow> error + therapy list" where
  "load_brand_concepts e record brands =
     (case map_of (lists record) ''trade_names'' of
        None \<Rightarrow> Inr []
      | Some tns \<Rightarrow> brand_items e record brands tns)"

text \<open>
  What the second pass does, in order: it writes a record of type \<open>rx_brand\<close>, stops
  in the debugger, or hands a record to \<open>_load_therapy\<close> of the base class (which
  is not part of the sources at hand).
\<close>

datatype event = Put_item therapy | Breakpoint | Load_therapy therapy

text \<open>One round of the loop \<open>for record in records.values()\<close>.\<close>

definition load_record :: "env \<Rightarrow> tables \<Rightarrow> therapy \<Rightarrow> error + event list" where
  "load_record e st record =
     (if map_of (strs record) ''label'' \<noteq> None
      then (case get_trade_names e record (precise_ingredient_to_brand st)
                   (ingredient_to_brands st) (ingredient_to_sbdf st) of
              Inl err \<Rightarrow> Inl err
            | Inr record1 \<Rightarrow>
                (case load_brand_concepts e record1 (brand_to_concept_id st) of
                   Inl err \<Rightarrow> Inl err
                 | Inr items \<Rightarrow>
                     (let record2 = (if map_of (strs record1) ''PIN'' \<noteq> None
                                     then del_str ''PIN'' record1 else record1)
                      in case map_of (strs record2) ''concept_id'' of
                           None \<Rightarrow> Inl (KeyError ''concept_id'')
                         | Some concept_id \<Rightarrow>
                             Inr (map Put_item items @
                                  (if concept_id = Some ''rxcui:100213'' then [Breakpoint] else []) @
                                  [Load_therapy record2]))))
      else Inr [])"

fun load_records :: "env \<Rightarrow> tables \<Rightarrow> therapy list \<Rightarrow> error + event list" where
  "load_records e st [] = Inr []"
| "load_records e st (record # rest) =
     (case load_record e st record of
        Inl err \<Rightarrow> Inl err
      | Inr evs \<Rightarrow>
          (case load_records e st rest of Inl err \<Rightarrow> Inl err | Inr evs' \<Rightarrow> Inr (evs @ evs')))"

text \<open>
  \<open>RxNorm._transform_data\<close>, from the rows of the file and the list of drug forms
  to what reaches the sink.
\<close>

definition rxnorm_transform_data :: "env \<Rightarrow> string list \<Rightarrow> row list \<Rightarrow> error + event list" where
  "rxnorm_transform_data e drug_forms rows =
     (case transform_rows e drug_forms empty_tables rows of
        Inl err \<Rightarrow> Inl err
      | Inr st \<Rightarrow> load_records e st (map snd (records st)))"

subsection \<open>Notions for the properties of the two passes\<close>

text \<open>A table none of whose lists holds the same string twice.\<close>

definition dup_free :: "table \<Rightarrow> bool" where
  "dup_free d \<longleftrightarrow> (\<forall>k vs. (k, vs) \<in> set d \<longrightarrow> distinct vs)"

text \<open>
  A record that is filed under its own concept id and has no list with the same
  string twice, and the tables all of whose records are such, under distinct keys.
\<close>

definition record_ok :: "string \<Rightarrow> therapy \<Rightarrow> bool" where
  "record_ok k r \<longleftrightarrow> map_of (strs r) ''concept_id'' = Some (Some k) \<and> dup_free (lists r)"

definition tables_ok :: "tables \<Rightarrow> bool" where
  "tables_ok st \<longleftrightarrow>
     distinct (map fst (records st)) \<and> (\<forall>k r. (k, r) \<in> set (records st) \<longrightarrow> record_ok k r)"

text \<open>
  The record a row contributes to: the one filed under the concept id of the row,
  or a new one that holds the concept id only.
\<close>

definition row_record :: "env \<Rightarrow> tables \<Rightarrow> row \<Rightarrow> therapy" where
  "row_record e st row =
     (case map_of (records st) (namespaced (NamespacePrefix_RXNORM e) (col0 row)) of
        None \<Rightarrow> set_str ''concept_id'' (namespaced (NamespacePrefix_RXNORM e) (col0 row)) empty_dict
      | Some r \<Rightarrow> r)"

text \<open>The concept id that a record reaching the sink carries.\<close>

fun event_concept_id :: "event \<Rightarrow> string option option" where
  "event_concept_id (Put_item i) = map_of (strs i) ''concept_id''"
| "event_concept_id (Load_therapy r) = map_of (strs r) ''concept_id''"
| "event_concept_id Breakpoint = None"

text \<open>\<open>"label" in record\<close>.\<close>

definition has_label :: "therapy \<Rightarrow> bool" where
  "has_label r \<longleftrightarrow> map_of (strs r) ''label'' \<noteq> None"

section \<open>An environment to run the adapters in\<close>

text \<open>
  The case mappings restricted to ASCII letters, where they agree with the methods
  of \<open>str\<close>, and tables of the shape the adapters expect.
\<close>

definition ascii_lower :: "string \<Rightarrow> string" where
  "ascii_lower s =
     map (\<lambda>c. case map_of (zip ''ABCDEFGHIJKLMNOPQRSTUVWXYZ'' ''abcdefghijklmnopqrstuvwxyz'') c of
               Some l \<Rightarrow> l | None \<Rightarrow> c) s"

definition ascii_upper :: "string \<Rightarrow> string" where
  "ascii_upper s =
     map (\<lambda>c. case map_of (zip ''abcdefghijklmnopqrstuvwxyz'' ''ABCDEFGHIJKLMNOPQRSTUVWXYZ'') c of
               Some u \<Rightarrow> u | None \<Rightarrow> c) s"

definition example_env :: env where
  "example_env =
     \<lparr>casefold = ascii_lower, lower = ascii_lower, upper = ascii_upper,
      SourceName_members = [''CHEMBL'', ''NCIT'', ''DRUGBANK'', ''RXNORM'', ''CHEMIDPLUS'', ''WIKIDATA''],
      SourceName_WIKIDATA = ''Wikidata'',
      SourceName_CHEMIDPLUS = ''ChemIDplus'',
      SourceName_DRUGBANK = ''DrugBank'',
      SourceName_RXNORM = ''RxNorm'',
      NamespacePrefix_WIKIDATA = ''wikidata'',
      NamespacePrefix_RXNORM = ''rxcui'',
      NamespacePrefix =
        [(''CHEMBL'', ''chembl''), (''NCIT'', ''ncit''), (''DRUGBANK'', ''drugbank''),
         (''RXNORM'', ''rxcui''), (''CHEMIDPLUS'', ''chemidplus''), (''WIKIDATA'', ''wikidata''),
         (''ATC'', ''atc''), (''MSH'', ''mesh''), (''UNII'', ''unii'')],
      SourceIDAfterNamespace =
        [(''CHEMBL'', ''CHEMBL''), (''NCIT'', ''C''), (''DRUGBANK'', ''DB''), (''RXNORM'', ''''),
         (''CHEMIDPLUS'', ''''), (''WIKIDATA'', ''Q'')],
      IDENTIFIER_PREFIXES =
        [(''casRegistry'', ''chemidplus''), (''ChemIDplus'', ''chemidplus''),
         (''pubchemCompound'', ''pubchem.compound''), (''pubchemSubstance'', ''pubchem.substance''),
         (''chembl'', ''chembl''), (''rxnorm'', ''rxcui''), (''drugbank'', ''drugbank''),
         (''wikidata'', ''wikidata'')],
      XREF_SOURCES = [''CHEMBL'', ''NCIT'', ''DRUGBANK'', ''RXNORM'', ''CHEMIDPLUS'', ''WIKIDATA''],
      ASSOC_WITH_SOURCES = [''ATC'', ''MSH'', ''UNII''],
      RXNORM_PRESCRIBABLE = ''rxnorm_prescribable''\<rparr>"

text \<open>The three rows of the linker example: an ingredient, a branded drug component, a brand.\<close>

definition aspirin_rows :: "row list" where
  "aspirin_rows =
     [\<lparr>col0 = ''1'', col11 = ''RXNORM'', col12 = ''IN'', col13 = ''1'', col14 = ''Aspirin'',
       col17 = ''''\<rparr>,
      \<lparr>col0 = ''2'', col11 = ''RXNORM'', col12 = ''SBDC'', col13 = ''2'',
       col14 = ''Aspirin 325 MG [Bufferin]'', col17 = ''''\<rparr>,
      \<lparr>col0 = ''3'', col11 = ''RXNORM'', col12 = ''BN'', col13 = ''3'', col14 = ''Bufferin'',
       col17 = ''''\<rparr>]"

text \<open>
  The linker example after the first pass: the records of the ingredient and of
  the brand, the table filled from the branded drug component, and the table of
  brands.
\<close>

definition aspirin_record :: therapy where
  "aspirin_record =
     \<lparr>strs = [(''concept_id'', Some ''rxcui:1''), (''label'', Some ''Aspirin'')], lists = []\<rparr>"

definition bufferin_record :: therapy where
  "bufferin_record =
     \<lparr>strs = [(''concept_id'', Some ''rxcui:3'')], lists = [(''trade_names'', [''Bufferin''])]\<rparr>"

definition aspirin_tables :: tables where
  "aspirin_tables =
     \<lparr>records = [(''rxcui:1'', aspirin_record), (''rxcui:3'', bufferin_record)],
      ingredient_to_brands = [(''Bufferin'', [''Aspirin''])],
      precise_ingredient_to_brand = [], ingredient_to_sbdf = [],
      brand_to_concept_id = [(''Bufferin'', ''rxcui:3'')]\<rparr>"

text \<open>The events that hand a record to \<open>_load_therapy\<close>.\<close>

fun is_load :: "event \<Rightarrow> bool" where
  "is_load (Load_therapy r) = True"
| "is_load (Put_item i) = False"
| "is_load Breakpoint = False"

section \<open>Properties of the backfill job\<close>

subsection \<open>Classification and single updates\<close>

lemma add_prev_ids_Inr:
  "add_prev_ids srcs prev (os, xs) = Inr r \<Longrightarrow>
     \<exists>ids. prev = map S ids \<and>
       r = (os @ filter (\<lambda>x. split_first CHR '':'' x \<in> srcs) ids,
            xs @ filter (\<lambda>x. split_first CHR '':'' x \<notin> srcs) ids)"
proof (induction srcs prev "(os, xs)" arbitrary: os xs rule: add_prev_ids.induct)
  case (1 srcs other_ids xrefs)
  then show ?case by simp
next
  case (2 srcs x prev other_ids xrefs)
  show ?case
  proof (cases "split_first CHR '':'' x \<in> srcs")
    case True
    with 2 obtain ids where "prev = map S ids"
      "r = ((other_ids @ [x]) @ filter (\<lambda>x. split_first CHR '':'' x \<in> srcs) ids,
            xrefs @ filter (\<lambda>x. split_first CHR '':'' x \<notin> srcs) ids)"
      by fastforce
    with True show ?thesis by (intro exI [of _ "x # ids"]) simp
  next
    case False
    with 2 obtain ids where "prev = map S ids"
      "r = (other_ids @ filter (\<lambda>x. split_first CHR '':'' x \<in> srcs) ids,
            (xrefs @ [x]) @ filter (\<lambda>x. split_first CHR '':'' x \<notin> srcs) ids)"
      by fastforce
    with False show ?thesis by (intro exI [of _ "x # ids"]) simp
  qed
qed simp_all

lemma add_prev_ids_map_S:
  "add_prev_ids srcs (map S ids) (os, xs) =
     Inr (os @ filter (\<lambda>x. split_first CHR '':'' x \<in> srcs) ids,
          xs @ filter (\<lambda>x. split_first CHR '':'' x \<notin> srcs) ids)"
  by (induction ids arbitrary: os xs) simp_all

lemma map_of_set_attrs_other:
  "a \<notin> fst ` set avs \<Longrightarrow> map_of (set_attrs avs it) a = map_of it a"
  by (induction avs it rule: set_attrs.induct) (auto simp: update_conv')

lemma map_of_apply_update_other:
  "a \<notin> touched u \<Longrightarrow> map_of (apply_update u it) a = map_of it a"
  by (cases u) (simp_all add: map_of_set_attrs_other delete_conv')

lemma has_key_apply_update:
  "keeps_key u \<Longrightarrow> has_key k (apply_update u it) = has_key k it"
  by (simp add: has_key_def keeps_key_def map_of_apply_update_other)

lemma has_key_key_item: "has_key k (key_item k)"
  by (simp add: has_key_def key_item_def)

lemma has_key_inj: "has_key k it \<Longrightarrow> has_key k' it \<Longrightarrow> k = k'"
  by (cases k; cases k') (simp add: has_key_def)

lemma find_update_rows_same:
  "keeps_key u \<Longrightarrow>
   find (has_key k) (update_rows k u rs) =
     Some (apply_update u (case find (has_key k) rs of None \<Rightarrow> key_item k | Some r \<Rightarrow> r))"
  by (induction rs) (simp_all add: has_key_apply_update has_key_key_item)

lemma find_update_rows_other:
  "keeps_key u \<Longrightarrow> k' \<noteq> k \<Longrightarrow> find (has_key k') (update_rows k u rs) = find (has_key k') rs"
proof (induction rs)
  case Nil
  then show ?case
    using has_key_inj [of k' "key_item k" k] by (auto simp: has_key_apply_update has_key_key_item)
next
  case (Cons r rs)
  then show ?case
    using has_key_inj [of k' r k] by (auto simp: has_key_apply_update)
qed

lemma get_item_table_update_same:
  "keeps_key u \<Longrightarrow>
   get_item (table_update_item db k u) k =
     Some (apply_update u (case get_item db k of None \<Rightarrow> key_item k | Some r \<Rightarrow> r))"
  by (simp add: get_item_def table_update_item_def find_update_rows_same)

lemma get_item_table_update_other:
  "keeps_key u \<Longrightarrow> k' \<noteq> k \<Longrightarrow> get_item (table_update_item db k u) k' = get_item db k'"
  by (simp add: get_item_def table_update_item_def find_update_rows_other)

lemma keeps_key_job [simp]:
  "keeps_key (Set [(''other_identifiers'', v), (''xrefs'', w)])"
  "keeps_key (Remove ''xrefs'')"
  "keeps_key (Remove ''other_identifiers'')"
  by (simp_all add: keeps_key_def)

lemma get_item_update_item_same:
  "get_item (update_item db ri rc other_ids xrefs) (ri, rc) =
     Some (write_back other_ids xrefs
             (case get_item db (ri, rc) of None \<Rightarrow> key_item (ri, rc) | Some r \<Rightarrow> r))"
  by (simp add: update_item_def write_back_def Let_def get_item_table_update_same)

lemma get_item_update_item_other:
  "k' \<noteq> (ri, rc) \<Longrightarrow> get_item (update_item db ri rc other_ids xrefs) k' = get_item db k'"
  by (simp add: update_item_def Let_def get_item_table_update_other)

lemma writes_update_item:
  "writes (update_item db ri rc other_ids xrefs) =
     writes db @
     [((ri, rc), Set [(''other_identifiers'', L (map S other_ids)), (''xrefs'', L (map S xrefs))])] @
     (if xrefs = [] then [((ri, rc), Remove ''xrefs'')] else []) @
     (if other_ids = [] then [((ri, rc), Remove ''other_identifiers'')] else [])"
  by (simp add: update_item_def Let_def table_update_item_def)

lemma write_back_xrefs:
  "map_of (write_back other_ids xrefs it) ''xrefs'' =
     (if xrefs = [] then None else Some (L (map S xrefs)))"
  by (simp add: write_back_def Let_def update_conv' delete_conv')

lemma write_back_other_identifiers:
  "map_of (write_back other_ids xrefs it) ''other_identifiers'' =
     (if other_ids = [] then None else Some (L (map S other_ids)))"
  by (simp add: write_back_def Let_def update_conv' delete_conv')

lemma write_back_frame:
  "a \<noteq> ''other_identifiers'' \<Longrightarrow> a \<noteq> ''xrefs'' \<Longrightarrow>
   map_of (write_back other_ids xrefs it) a = map_of it a"
  by (simp add: write_back_def Let_def update_conv' delete_conv')

lemma process_record_identity:
  assumes "has_key (ri, rc) record" and "str_contains ri ''##identity''"
    and "reclassify srcs record = Inr (other_ids, xrefs)"
  shows "process_record srcs db record = Inr (update_item db ri rc other_ids xrefs)"
  using assms by (simp add: process_record_def has_key_def)

subsection \<open>What a run leaves untouched\<close>

lemma same_but_ids_refl: "same_but_ids it it"
  by (simp add: same_but_ids_def)

lemma same_but_ids_trans: "same_but_ids a b \<Longrightarrow> same_but_ids b c \<Longrightarrow> same_but_ids a c"
  by (simp add: same_but_ids_def)

lemma keeps_rows_refl: "keeps_rows db db"
  by (simp add: keeps_rows_def same_but_ids_refl)

lemma keeps_rows_trans:
  assumes "keeps_rows db1 db2" and "keeps_rows db2 db3"
  shows "keeps_rows db1 db3"
  unfolding keeps_rows_def
proof (intro allI impI)
  fix k it assume "get_item db1 k = Some it"
  with assms(1) obtain it2 where it2: "get_item db2 k = Some it2" "same_but_ids it it2"
    unfolding keeps_rows_def by blast
  with assms(2) obtain it3 where it3: "get_item db3 k = Some it3" "same_but_ids it2 it3"
    unfolding keeps_rows_def by blast
  from it2(2) it3(2) have "same_but_ids it it3" by (rule same_but_ids_trans)
  with it3(1) show "\<exists>it'. get_item db3 k = Some it' \<and> same_but_ids it it'" by blast
qed

lemma ids_writes_refl: "ids_writes db db"
  by (simp add: ids_writes_def)

lemma ids_writes_trans:
  assumes "ids_writes db1 db2" and "ids_writes db2 db3"
  shows "ids_writes db1 db3"
proof -
  from assms(1) obtain ws where
    ws: "writes db2 = writes db1 @ ws"
        "\<forall>w\<in>set ws. touched (snd w) \<subseteq> {''other_identifiers'', ''xrefs''}"
    unfolding ids_writes_def by blast
  from assms(2) obtain ws' where
    ws': "writes db3 = writes db2 @ ws'"
         "\<forall>w\<in>set ws'. touched (snd w) \<subseteq> {''other_identifiers'', ''xrefs''}"
    unfolding ids_writes_def by blast
  have "writes db3 = writes db1 @ (ws @ ws')"
    using ws(1) ws'(1) by simp
  moreover have "\<forall>w\<in>set (ws @ ws'). touched (snd w) \<subseteq> {''other_identifiers'', ''xrefs''}"
    using ws(2) ws'(2) by (simp add: ball_Un)
  ultimately show ?thesis
    unfolding ids_writes_def by blast
qed

lemma preserves_refl: "preserves db db"
  by (simp add: preserves_def keeps_rows_refl ids_writes_refl)

lemma preserves_trans: "preserves db1 db2 \<Longrightarrow> preserves db2 db3 \<Longrightarrow> preserves db1 db3"
  unfolding preserves_def using keeps_rows_trans ids_writes_trans by blast

lemma keeps_rows_update_item: "keeps_rows db (update_item db ri rc other_ids xrefs)"
  unfolding keeps_rows_def
proof (intro allI impI)
  fix k it assume g: "get_item db k = Some it"
  show "\<exists>it'. get_item (update_item db ri rc other_ids xrefs) k = Some it' \<and> same_but_ids it it'"
  proof (cases "k = (ri, rc)")
    case True
    with g show ?thesis
      by (simp add: get_item_update_item_same write_back_frame same_but_ids_def)
  next
    case False
    with g show ?thesis
      by (simp add: get_item_update_item_other same_but_ids_refl)
  qed
qed

lemma ids_writes_update_item: "ids_writes db (update_item db ri rc other_ids xrefs)"
  unfolding ids_writes_def
  by (rule exI [of _ "[((ri, rc), Set [(''other_identifiers'', L (map S other_ids)), (''xrefs'', L (map S xrefs))])] @
     (if xrefs = [] then [((ri, rc), Remove ''xrefs'')] else []) @
     (if other_ids = [] then [((ri, rc), Remove ''other_identifiers'')] else [])"])
    (cases "xrefs = []"; cases "other_ids = []"; simp add: writes_update_item)

lemma preserves_update_item: "preserves db (update_item db ri rc other_ids xrefs)"
  by (simp add: preserves_def keeps_rows_update_item ids_writes_update_item)

lemma process_record_cases:
  assumes "process_record srcs db record = Inr db'"
  shows "(db' = db \<and> (\<exists>ri rc. has_key (ri, rc) record \<and> \<not> str_contains ri ''##identity'')) \<or>
         (\<exists>ri rc other_ids xrefs. has_key (ri, rc) record \<and> str_contains ri ''##identity'' \<and>
            reclassify srcs record = Inr (other_ids, xrefs) \<and>
            db' = update_item db ri rc other_ids xrefs)"
proof (cases "map_of record ''label_and_type''")
  case None
  with assms show ?thesis by (simp add: process_record_def)
next
  case (Some v)
  note lt = this
  show ?thesis
  proof (cases v)
    case (S ri)
    note ri = this
    show ?thesis
    proof (cases "map_of record ''concept_id''")
      case None
      with assms lt ri show ?thesis by (simp add: process_record_def)
    next
      case (Some w)
      note ci = this
      show ?thesis
      proof (cases w)
        case (S rc)
        show ?thesis
        proof (cases "str_contains ri ''##identity''")
          case True
          show ?thesis
          proof (cases "reclassify srcs record")
            case (Inl e)
            with assms lt ri ci S True show ?thesis by (simp add: process_record_def)
          next
            case (Inr p)
            obtain other_ids xrefs where p: "p = (other_ids, xrefs)" by (cases p)
            from assms lt ri ci S True Inr p
            have "db' = update_item db ri rc other_ids xrefs"
              by (simp add: process_record_def)
            moreover have "has_key (ri, rc) record"
              using lt ri ci S by (simp add: has_key_def)
            ultimately show ?thesis using True Inr p by blast
          qed
        next
          case False
          with assms lt ri ci S show ?thesis by (auto simp: process_record_def has_key_def)
        qed
      qed (use assms lt ri ci in \<open>simp_all add: process_record_def\<close>)
    qed
  qed (use assms lt in \<open>simp_all add: process_record_def\<close>)
qed

lemma preserves_process_record:
  "process_record srcs db record = Inr db' \<Longrightarrow> preserves db db'"
  by (drule process_record_cases) (auto intro: preserves_refl preserves_update_item)

lemma process_records_step:
  "process_records srcs db (r # rs) = Inr db' \<Longrightarrow>
   \<exists>db1. process_record srcs db r = Inr db1 \<and> process_records srcs db1 rs = Inr db'"
  by (cases "process_record srcs db r") simp_all

lemma preserves_process_records:
  "process_records srcs db rs = Inr db' \<Longrightarrow> preserves db db'"
proof (induction rs arbitrary: db)
  case Nil
  then show ?case by (simp add: preserves_refl)
next
  case (Cons r rs)
  from process_records_step [OF Cons.prems] obtain db1
    where "process_record srcs db r = Inr db1" "process_records srcs db1 rs = Inr db'"
    by blast
  then show ?case
    using Cons.IH preserves_process_record preserves_trans by blast
qed

lemma scan_loop_step:
  assumes "(case scan db tok of
      (page, tok') \<Rightarrow>
        (case process_records srcs db page of
           Inl e \<Rightarrow> Some (Inl e)
         | Inr db' \<Rightarrow> (case tok' of None \<Rightarrow> Some (Inr db') | Some p \<Rightarrow> f srcs db' (Some p)))) =
     Some (Inr d)"
  shows "\<exists>db1. process_records srcs db (fst (scan db tok)) = Inr db1 \<and>
           (case snd (scan db tok) of None \<Rightarrow> d = db1 | Some p \<Rightarrow> f srcs db1 (Some p) = Some (Inr d))"
proof -
  obtain page tok' where sc: "scan db tok = (page, tok')"
    by (cases "scan db tok")
  show ?thesis
  proof (cases "process_records srcs db page")
    case (Inl e)
    with assms sc show ?thesis by simp
  next
    case (Inr db1)
    with assms sc show ?thesis by (cases tok') simp_all
  qed
qed

lemma preserves_scan_loop:
  assumes "scan_loop srcs db tok = Some (Inr db')"
  shows "preserves db db'"
proof -
  have "\<forall>d. (Inr db' :: error + database) = Inr d \<longrightarrow> preserves db d"
  proof (rule scan_loop.raw_induct
      [where P = "\<lambda>srcs db tok r. \<forall>d. r = Inr d \<longrightarrow> preserves db d", OF _ assms])
    fix f srcs db tok r
    assume IH: "\<And>srcs db tok r. f srcs db tok = Some r \<Longrightarrow> \<forall>d. r = Inr d \<longrightarrow> preserves db d"
      and step: "(case scan db tok of
        (page, tok') \<Rightarrow>
          (case process_records srcs db page of
             Inl e \<Rightarrow> Some (Inl e)
           | Inr db' \<Rightarrow> (case tok' of None \<Rightarrow> Some (Inr db') | Some p \<Rightarrow> f srcs db' (Some p)))) =
        Some r"
    show "\<forall>d. r = Inr d \<longrightarrow> preserves db d"
    proof (intro allI impI)
      fix d assume r: "r = Inr d"
      from scan_loop_step [where f = f and db = db and tok = tok and srcs = srcs and d = d] step [unfolded r] obtain db1 where
        db1: "process_records srcs db (fst (scan db tok)) = Inr db1"
        and rest: "case snd (scan db tok) of None \<Rightarrow> d = db1
                   | Some p \<Rightarrow> f srcs db1 (Some p) = Some (Inr d)"
        by blast
      from db1 have p1: "preserves db db1"
        by (rule preserves_process_records)
      show "preserves db d"
      proof (cases "snd (scan db tok)")
        case None
        with rest p1 show ?thesis by simp
      next
        case (Some p)
        with rest have "f srcs db1 (Some p) = Some (Inr d)" by simp
        from IH [OF this] have "preserves db1 d" by simp
        with p1 show ?thesis by (rule preserves_trans)
      qed
    qed
  qed
  then show ?thesis by simp
qed

subsection \<open>The example table\<close>

lemma example_reclassify:
  "reclassify example_srcs example_item = Inr ([''drugbank:DB00945''], [])"
  by (simp add: reclassify_def add_xrefs_other_ids_def example_item_def example_srcs_def
      split_first_def)

lemma example_has_key: "has_key (''rxcui:1191##identity'', ''rxcui:1191'') example_item"
  by (simp add: has_key_def example_item_def)

lemma example_identity: "str_contains ''rxcui:1191##identity'' ''##identity''"
  by simp

lemma example_get_item: "get_item example_db example_key = Some example_item"
  by (simp add: get_item_def example_db_def example_key_def example_has_key)

lemma example_run:
  "update_xrefs_other_ids example_srcs example_db = Some (Inr example_migrated)"
  by (simp add: update_xrefs_other_ids_def scan_loop.simps scan_def example_db_def
      src_name_filter_def example_item_def process_record_def reclassify_def
      add_xrefs_other_ids_def example_srcs_def split_first_def update_item_def
      table_update_item_def has_key_def Let_def example_migrated_def example_migrated_item_def
      example_writes_def example_key_def)

subsection \<open>Empty lists are removed\<close>

text \<open>
  Claim C5.  When the job processes an identity record and the reclassified \<open>xrefs\<close>
  list is empty, the record stored under its key afterwards has no \<open>xrefs\<close> attribute,
  and the job has sent a separate request removing it; the same holds for
  \<open>other_identifiers\<close>.
\<close>

theorem empty_list_removes_attribute:
  assumes "has_key (ri, rc) record" and "str_contains ri ''##identity''"
    and "reclassify srcs record = Inr (other_ids, xrefs)"
  shows "\<exists>db' it. process_record srcs db record = Inr db' \<and> get_item db' (ri, rc) = Some it \<and>
           (xrefs = [] \<longrightarrow>
              map_of it ''xrefs'' = None \<and> ((ri, rc), Remove ''xrefs'') \<in> set (writes db')) \<and>
           (other_ids = [] \<longrightarrow>
              map_of it ''other_identifiers'' = None \<and>
              ((ri, rc), Remove ''other_identifiers'') \<in> set (writes db'))"
  using assms
  by (simp add: process_record_identity get_item_update_item_same write_back_xrefs
      write_back_other_identifiers writes_update_item)

theorem empty_list_removes_attribute_witness:
  "has_key (''rxcui:1191##identity'', ''rxcui:1191'') example_item \<and>
   str_contains ''rxcui:1191##identity'' ''##identity'' \<and>
   reclassify example_srcs example_item = Inr ([''drugbank:DB00945''], []) \<and>
   (\<exists>db' it. process_record example_srcs example_db example_item = Inr db' \<and>
      get_item db' (''rxcui:1191##identity'', ''rxcui:1191'') = Some it \<and>
      map_of it ''xrefs'' = None \<and>
      ((''rxcui:1191##identity'', ''rxcui:1191''), Remove ''xrefs'') \<in> set (writes db'))"
  using empty_list_removes_attribute [OF example_has_key example_identity example_reclassify,
      of example_db]
    example_has_key example_identity example_reclassify
  by simp

subsection \<open>The frame of a run\<close>

text \<open>
  Claim C8.  A run of the job that returns leaves every attribute other than
  \<open>other_identifiers\<close> and \<open>xrefs\<close> of every stored record as it was, in particular
  \<open>label\<close>, \<open>aliases\<close>, \<open>trade_names\<close> and \<open>approval_status\<close>, and every request it
  sends assigns or removes only \<open>other_identifiers\<close> and \<open>xrefs\<close>.
\<close>

theorem backfill_frame:
  assumes "update_xrefs_other_ids srcs db = Some (Inr db')"
  shows "(\<forall>k it. get_item db k = Some it \<longrightarrow>
            (\<exists>it'. get_item db' k = Some it' \<and>
               map_of it' ''label'' = map_of it ''label'' \<and>
               map_of it' ''aliases'' = map_of it ''aliases'' \<and>
               map_of it' ''trade_names'' = map_of it ''trade_names'' \<and>
               map_of it' ''approval_status'' = map_of it ''approval_status'' \<and>
               (\<forall>a. a \<noteq> ''other_identifiers'' \<longrightarrow> a \<noteq> ''xrefs'' \<longrightarrow>
                  map_of it' a = map_of it a))) \<and>
         (\<exists>ws. writes db' = writes db @ ws \<and>
            (\<forall>w\<in>set ws. touched (snd w) \<subseteq> {''other_identifiers'', ''xrefs''}))"
proof -
  from assms have p: "preserves db db'"
    unfolding update_xrefs_other_ids_def by (rule preserves_scan_loop)
  have "\<exists>it'. get_item db' k = Some it' \<and>
               map_of it' ''label'' = map_of it ''label'' \<and>
               map_of it' ''aliases'' = map_of it ''aliases'' \<and>
               map_of it' ''trade_names'' = map_of it ''trade_names'' \<and>
               map_of it' ''approval_status'' = map_of it ''approval_status'' \<and>
               (\<forall>a. a \<noteq> ''other_identifiers'' \<longrightarrow> a \<noteq> ''xrefs'' \<longrightarrow>
                  map_of it' a = map_of it a)"
    if g: "get_item db k = Some it" for k it
  proof -
    from p g obtain it' where it': "get_item db' k = Some it'" "same_but_ids it it'"
      unfolding preserves_def keeps_rows_def by blast
    from it'(2) have "\<forall>a. a \<noteq> ''other_identifiers'' \<longrightarrow> a \<noteq> ''xrefs'' \<longrightarrow>
                  map_of it' a = map_of it a"
      by (simp add: same_but_ids_def)
    with it'(1) show ?thesis by simp
  qed
  moreover from p have "\<exists>ws. writes db' = writes db @ ws \<and>
            (\<forall>w\<in>set ws. touched (snd w) \<subseteq> {''other_identifiers'', ''xrefs''})"
    by (simp add: preserves_def ids_writes_def)
  ultimately show ?thesis by blast
qed

theorem backfill_frame_witness:
  "update_xrefs_other_ids example_srcs example_db = Some (Inr example_migrated) \<and>
   get_item example_db example_key = Some example_item \<and>
   (\<exists>it'. get_item example_migrated example_key = Some it' \<and>
      map_of it' ''label'' = Some (S ''aspirin''))"
proof -
  from backfill_frame [OF example_run] example_get_item
  obtain it' where "get_item example_migrated example_key = Some it'"
    "map_of it' ''label'' = map_of example_item ''label''"
    by blast
  moreover have "map_of example_item ''label'' = Some (S ''aspirin'')"
    by (simp add: example_item_def)
  ultimately show ?thesis
    using example_run example_get_item by simp
qed

subsection \<open>A run is a pass over all rows\<close>

lemma has_key_iff: "has_key k it \<longleftrightarrow> key_attrs it = (Some (S (fst k)), Some (S (snd k)))"
  by (simp add: has_key_def key_attrs_def)

lemma key_attrs_apply_update: "keeps_key u \<Longrightarrow> key_attrs (apply_update u it) = key_attrs it"
  by (simp add: key_attrs_def keeps_key_def map_of_apply_update_other)

lemma key_attrs_write_back: "key_attrs (write_back other_ids xrefs it) = key_attrs it"
  by (simp add: key_attrs_def write_back_frame)

lemma has_key_write_back: "has_key k (write_back other_ids xrefs it) = has_key k it"
  by (simp add: has_key_iff key_attrs_write_back)

lemma key_attrs_migrate: "key_attrs (migrate srcs r) = key_attrs r"
  by (simp add: migrate_def key_attrs_write_back split: option.splits attr_value.splits sum.splits)

lemma key_attrs_migrated: "key_attrs (migrated srcs r) = key_attrs r"
  by (simp add: migrated_def key_attrs_migrate)

lemma update_rows_at:
  assumes "has_key k r" and "\<forall>r'\<in>set pre. \<not> has_key k r'"
  shows "update_rows k u (pre @ r # post) = pre @ apply_update u r # post"
  using assms by (induction pre) simp_all

lemma table_update_item_at:
  assumes "therapies db = pre @ r # post" and "has_key k r" and "\<forall>r'\<in>set pre. \<not> has_key k r'"
  shows "therapies (table_update_item db k u) = pre @ apply_update u r # post"
    and "page_rows (table_update_item db k u) = page_rows db"
  using assms by (simp_all add: table_update_item_def update_rows_at)

lemma update_item_at:
  assumes t: "therapies db = pre @ r # post" and k: "has_key (ri, rc) r"
    and pre: "\<forall>r'\<in>set pre. \<not> has_key (ri, rc) r'"
  shows "therapies (update_item db ri rc other_ids xrefs) = pre @ write_back other_ids xrefs r # post"
    and "page_rows (update_item db ri rc other_ids xrefs) = page_rows db"
proof -
  let ?k = "(ri, rc)"
  let ?u1 = "Set [(''other_identifiers'', L (map S other_ids)), (''xrefs'', L (map S xrefs))]"
  define db1 where "db1 = table_update_item db ?k ?u1"
  define db2 where "db2 = (if xrefs = [] then table_update_item db1 ?k (Remove ''xrefs'') else db1)"
  define db3 where
    "db3 = (if other_ids = [] then table_update_item db2 ?k (Remove ''other_identifiers'') else db2)"
  define r1 where "r1 = apply_update ?u1 r"
  define r2 where "r2 = (if xrefs = [] then apply_update (Remove ''xrefs'') r1 else r1)"
  define r3 where "r3 = (if other_ids = [] then apply_update (Remove ''other_identifiers'') r2 else r2)"
  have u: "update_item db ri rc other_ids xrefs = db3"
    by (simp add: update_item_def Let_def db1_def db2_def db3_def)
  have w: "write_back other_ids xrefs r = r3"
    by (simp add: write_back_def Let_def r1_def r2_def r3_def)
  have 1: "therapies db1 = pre @ r1 # post" "page_rows db1 = page_rows db"
    unfolding db1_def r1_def using table_update_item_at [OF t k pre] by simp_all
  have k1: "has_key ?k r1"
    unfolding r1_def using k by (simp add: has_key_apply_update del: apply_update.simps)
  have 2: "therapies db2 = pre @ r2 # post" "page_rows db2 = page_rows db"
    unfolding db2_def r2_def using table_update_item_at [OF 1(1) k1 pre] 1 by simp_all
  have k2: "has_key ?k r2"
    unfolding r2_def using k1 by (simp add: has_key_apply_update del: apply_update.simps)
  have 3: "therapies db3 = pre @ r3 # post" "page_rows db3 = page_rows db"
    unfolding db3_def r3_def using table_update_item_at [OF 2(1) k2 pre] 2 by simp_all
  show "therapies (update_item db ri rc other_ids xrefs) = pre @ write_back other_ids xrefs r # post"
    using u w 3 by simp
  show "page_rows (update_item db ri rc other_ids xrefs) = page_rows db"
    using u 3 by simp
qed

lemma processable_iff: "processable srcs r \<longleftrightarrow> (\<exists>db'. process_record srcs db r = Inr db')"
proof
  assume "processable srcs r"
  then obtain ri rc where k: "has_key (ri, rc) r"
    and p: "str_contains ri ''##identity'' \<longrightarrow> (\<exists>p. reclassify srcs r = Inr p)"
    unfolding processable_def by blast
  show "\<exists>db'. process_record srcs db r = Inr db'"
  proof (cases "str_contains ri ''##identity''")
    case True
    with p obtain other_ids xrefs where "reclassify srcs r = Inr (other_ids, xrefs)" by fastforce
    from process_record_identity [OF k True this] show ?thesis by blast
  next
    case False
    with k show ?thesis by (simp add: process_record_def has_key_def)
  qed
next
  assume "\<exists>db'. process_record srcs db r = Inr db'"
  then obtain db' where "process_record srcs db r = Inr db'" ..
  from process_record_cases [OF this] show "processable srcs r"
    unfolding processable_def by blast
qed

lemma process_record_at:
  assumes t: "therapies db = pre @ r # post"
    and d: "distinct (map key_attrs (pre @ r # post))"
    and p: "process_record srcs db r = Inr db'"
  shows "therapies db' = pre @ migrate srcs r # post \<and> page_rows db' = page_rows db"
proof -
  from process_record_cases [OF p] show ?thesis
  proof (elim disjE conjE exE)
    fix ri rc
    assume "db' = db" and k: "has_key (ri, rc) r" and n: "\<not> str_contains ri ''##identity''"
    from k n have "migrate srcs r = r"
      by (simp add: migrate_def has_key_def)
    with t \<open>db' = db\<close> show ?thesis by simp
  next
    fix ri rc other_ids xrefs
    assume k: "has_key (ri, rc) r" and i: "str_contains ri ''##identity''"
      and c: "reclassify srcs r = Inr (other_ids, xrefs)"
      and u: "db' = update_item db ri rc other_ids xrefs"
    have pre: "\<forall>r'\<in>set pre. \<not> has_key (ri, rc) r'"
    proof
      fix r' assume r': "r' \<in> set pre"
      show "\<not> has_key (ri, rc) r'"
      proof
        assume "has_key (ri, rc) r'"
        with k have "key_attrs r' = key_attrs r" by (simp add: has_key_iff)
        moreover from r' have "key_attrs r' \<in> key_attrs ` set pre" by simp
        ultimately show False using d by simp
      qed
    qed
    from k i c have "migrate srcs r = write_back other_ids xrefs r"
      by (simp add: migrate_def has_key_def)
    with update_item_at [OF t k pre, of other_ids xrefs] u show ?thesis by simp
  qed
qed

lemma process_records_segment:
  assumes "therapies db = pre @ seg @ post"
    and "distinct (map key_attrs (pre @ seg @ post))"
    and "process_records srcs db (filter src_name_filter seg) = Inr db'"
  shows "therapies db' = pre @ map (migrated srcs) seg @ post \<and> page_rows db' = page_rows db"
  using assms
proof (induction seg arbitrary: pre db)
  case Nil
  then show ?case by simp
next
  case (Cons r seg)
  show ?case
  proof (cases "src_name_filter r")
    case False
    have "therapies db = (pre @ [r]) @ seg @ post"
      using Cons.prems(1) by simp
    moreover have "distinct (map key_attrs ((pre @ [r]) @ seg @ post))"
      using Cons.prems(2) by simp
    moreover have "process_records srcs db (filter src_name_filter seg) = Inr db'"
      using Cons.prems(3) False by simp
    ultimately have "therapies db' = (pre @ [r]) @ map (migrated srcs) seg @ post \<and>
        page_rows db' = page_rows db"
      by (rule Cons.IH)
    with False show ?thesis by (simp add: migrated_def)
  next
    case True
    with Cons.prems(3) have "process_records srcs db (r # filter src_name_filter seg) = Inr db'"
      by simp
    from process_records_step [OF this] obtain db1 where
      1: "process_record srcs db r = Inr db1"
      and 2: "process_records srcs db1 (filter src_name_filter seg) = Inr db'"
      by blast
    have t: "therapies db = pre @ r # (seg @ post)"
      using Cons.prems(1) by simp
    have d: "distinct (map key_attrs (pre @ r # (seg @ post)))"
      using Cons.prems(2) by simp
    from process_record_at [OF t d 1]
    have t1: "therapies db1 = pre @ migrate srcs r # (seg @ post)" and pg: "page_rows db1 = page_rows db"
      by simp_all
    have "therapies db1 = (pre @ [migrate srcs r]) @ seg @ post"
      using t1 by simp
    moreover have "distinct (map key_attrs ((pre @ [migrate srcs r]) @ seg @ post))"
      using Cons.prems(2) by (simp add: key_attrs_migrate)
    ultimately have "therapies db' = (pre @ [migrate srcs r]) @ map (migrated srcs) seg @ post \<and>
        page_rows db' = page_rows db1"
      using 2 by (rule Cons.IH)
    with True pg show ?thesis by (simp add: migrated_def)
  qed
qed

lemma process_records_Inr_processable:
  "process_records srcs db rs = Inr db' \<Longrightarrow> \<forall>r\<in>set rs. processable srcs r"
proof (induction rs arbitrary: db)
  case Nil
  then show ?case by simp
next
  case (Cons r rs)
  from process_records_step [OF Cons.prems] obtain db1 where
    1: "process_record srcs db r = Inr db1" and 2: "process_records srcs db1 rs = Inr db'"
    by blast
  from 1 have "processable srcs r"
    using processable_iff by blast
  with Cons.IH [OF 2] show ?case by simp
qed

lemma process_records_processable:
  "\<forall>r\<in>set rs. processable srcs r \<Longrightarrow> \<exists>db'. process_records srcs db rs = Inr db'"
proof (induction rs arbitrary: db)
  case Nil
  then show ?case by simp
next
  case (Cons r rs)
  then have "processable srcs r" by simp
  then obtain db1 where 1: "process_record srcs db r = Inr db1"
    using processable_iff by blast
  from Cons obtain db' where "process_records srcs db1 rs = Inr db'"
    by fastforce
  with 1 show ?case by simp
qed

lemma add_xrefs_other_ids_sound:
  assumes "add_xrefs_other_ids r attr (os, xs) srcs = Inr (os', xs')"
    and "\<forall>x\<in>set os. split_first CHR '':'' x \<in> srcs"
    and "\<forall>x\<in>set xs. split_first CHR '':'' x \<notin> srcs"
  shows "(\<forall>x\<in>set os'. split_first CHR '':'' x \<in> srcs) \<and>
         (\<forall>x\<in>set xs'. split_first CHR '':'' x \<notin> srcs)"
proof (cases "map_of r attr")
  case None
  with assms show ?thesis by (simp add: add_xrefs_other_ids_def)
next
  case (Some v)
  show ?thesis
  proof (cases v)
    case (L prev)
    with Some assms(1) have "add_prev_ids srcs prev (os, xs) = Inr (os', xs')"
      by (simp add: add_xrefs_other_ids_def)
    from add_prev_ids_Inr [OF this] assms(2,3) show ?thesis by auto
  qed (use Some assms in \<open>simp_all add: add_xrefs_other_ids_def\<close>)
qed

lemma reclassify_sound:
  assumes "reclassify srcs r = Inr (os, xs)"
  shows "(\<forall>x\<in>set os. split_first CHR '':'' x \<in> srcs) \<and>
         (\<forall>x\<in>set xs. split_first CHR '':'' x \<notin> srcs)"
proof (cases "add_xrefs_other_ids r ''other_identifiers'' ([], []) srcs")
  case (Inl e)
  with assms show ?thesis by (simp add: reclassify_def)
next
  case (Inr acc)
  obtain os1 xs1 where acc: "acc = (os1, xs1)" by (cases acc)
  from add_xrefs_other_ids_sound [OF Inr [unfolded acc]]
  have 1: "(\<forall>x\<in>set os1. split_first CHR '':'' x \<in> srcs) \<and>
         (\<forall>x\<in>set xs1. split_first CHR '':'' x \<notin> srcs)" by simp
  from assms Inr acc have "add_xrefs_other_ids r ''xrefs'' (os1, xs1) srcs = Inr (os, xs)"
    by (simp add: reclassify_def)
  from add_xrefs_other_ids_sound [OF this] 1 show ?thesis by blast
qed

lemma filter_all: "\<forall>x\<in>set xs. P x \<Longrightarrow> filter P xs = xs"
  by (induction xs) simp_all

lemma filter_none: "\<forall>x\<in>set xs. \<not> P x \<Longrightarrow> filter P xs = []"
  by (induction xs) simp_all

lemma reclassify_write_back:
  assumes "reclassify srcs r = Inr (os, xs)"
  shows "reclassify srcs (write_back os xs r) = Inr (os, xs)"
proof -
  from reclassify_sound [OF assms]
  have os: "\<forall>x\<in>set os. split_first CHR '':'' x \<in> srcs"
    and xs: "\<forall>x\<in>set xs. split_first CHR '':'' x \<notin> srcs" by simp_all
  have fo: "filter (\<lambda>x. split_first CHR '':'' x \<in> srcs) os = os"
    "filter (\<lambda>x. split_first CHR '':'' x \<notin> srcs) os = []"
    using os by (simp_all add: filter_all filter_none)
  have fx: "filter (\<lambda>x. split_first CHR '':'' x \<in> srcs) xs = []"
    "filter (\<lambda>x. split_first CHR '':'' x \<notin> srcs) xs = xs"
    using xs by (simp_all add: filter_all filter_none)
  have 1: "add_xrefs_other_ids (write_back os xs r) ''other_identifiers'' ([], []) srcs = Inr (os, [])"
    by (simp add: add_xrefs_other_ids_def write_back_other_identifiers add_prev_ids_map_S fo)
  have 2: "add_xrefs_other_ids (write_back os xs r) ''xrefs'' (os, []) srcs = Inr (os, xs)"
    by (simp add: add_xrefs_other_ids_def write_back_xrefs add_prev_ids_map_S fx)
  show ?thesis
    by (simp add: reclassify_def 1 2)
qed

lemma write_back_idem:
  "write_back os xs (write_back os xs r) = write_back os xs r"
proof -
  let ?a = "''other_identifiers''" and ?b = "''xrefs''"
  let ?va = "L (map S os)" and ?vb = "L (map S xs)"
  have ne: "?a \<noteq> ?b" by simp
  show ?thesis
  proof (cases "os = []"; cases "xs = []")
    assume "os \<noteq> []" "xs \<noteq> []"
    then show ?thesis
      by (simp add: write_back_def Let_def update_triv update_conv')
  next
    assume "os \<noteq> []" "xs = []"
    then show ?thesis
      by (simp add: write_back_def Let_def delete_update_same update_triv update_conv'
          delete_conv' delete_idem)
  next
    assume "os = []" "xs \<noteq> []"
    then show ?thesis
      by (simp add: write_back_def Let_def delete_update_same delete_update delete_idem)
  next
    assume "os = []" "xs = []"
    then show ?thesis
      by (simp add: write_back_def Let_def delete_update_same delete_update delete_idem
          delete_twist [of ?a ?b])
  qed
qed

lemma migrate_cases:
  obtains (same) "migrate srcs r = r"
  | (wb) ri other_ids xrefs where "map_of r ''label_and_type'' = Some (S ri)"
      "str_contains ri ''##identity''" "reclassify srcs r = Inr (other_ids, xrefs)"
      "migrate srcs r = write_back other_ids xrefs r"
proof (cases "map_of r ''label_and_type''")
  case None
  then have "migrate srcs r = r" by (simp add: migrate_def)
  then show ?thesis by (rule same)
next
  case (Some v)
  show ?thesis
  proof (cases v)
    case (S ri)
    show ?thesis
    proof (cases "str_contains ri ''##identity''")
      case True
      show ?thesis
      proof (cases "reclassify srcs r")
        case (Inl e)
        with Some S True have "migrate srcs r = r" by (simp add: migrate_def)
        then show ?thesis by (rule same)
      next
        case (Inr p)
        obtain other_ids xrefs where p: "p = (other_ids, xrefs)" by (cases p)
        with Some S True Inr have "migrate srcs r = write_back other_ids xrefs r"
          by (simp add: migrate_def)
        with Some S True Inr p show ?thesis by (intro wb [of ri other_ids xrefs]) simp_all
      qed
    next
      case False
      with Some S have "migrate srcs r = r" by (simp add: migrate_def)
      then show ?thesis by (rule same)
    qed
  qed (use Some in \<open>simp_all add: migrate_def same\<close>)
qed

lemma migrate_idem: "migrate srcs (migrate srcs r) = migrate srcs r"
proof (cases srcs r rule: migrate_cases)
  case same
  then show ?thesis by simp
next
  case (wb ri other_ids xrefs)
  have "map_of (write_back other_ids xrefs r) ''label_and_type'' = Some (S ri)"
    using wb(1) by (simp add: write_back_frame)
  moreover have "reclassify srcs (write_back other_ids xrefs r) = Inr (other_ids, xrefs)"
    using wb(3) by (rule reclassify_write_back)
  ultimately have "migrate srcs (write_back other_ids xrefs r) =
      write_back other_ids xrefs (write_back other_ids xrefs r)"
    using wb(2) by (simp add: migrate_def)
  with wb(4) show ?thesis by (simp add: write_back_idem)
qed

lemma src_name_filter_migrate: "src_name_filter (migrate srcs r) = src_name_filter r"
  by (cases srcs r rule: migrate_cases) (simp_all add: src_name_filter_def write_back_frame)

lemma src_name_filter_migrated: "src_name_filter (migrated srcs r) = src_name_filter r"
  by (simp add: migrated_def src_name_filter_migrate)

lemma migrated_idem: "migrated srcs (migrated srcs r) = migrated srcs r"
  by (simp add: migrated_def src_name_filter_migrate migrate_idem)

lemma processable_migrate: "processable srcs r \<Longrightarrow> processable srcs (migrate srcs r)"
proof (cases srcs r rule: migrate_cases)
  case same
  assume "processable srcs r"
  with same show ?thesis by simp
next
  case (wb ri other_ids xrefs)
  assume "processable srcs r"
  then obtain ri' rc where "has_key (ri', rc) r"
    unfolding processable_def by blast
  then have "has_key (ri', rc) (write_back other_ids xrefs r)"
    by (simp add: has_key_write_back)
  moreover have "reclassify srcs (write_back other_ids xrefs r) = Inr (other_ids, xrefs)"
    using wb(3) by (rule reclassify_write_back)
  ultimately show ?thesis
    unfolding processable_def wb(4) by blast
qed

lemma processable_migrated: "processable srcs r \<Longrightarrow> processable srcs (migrated srcs r)"
  by (simp add: migrated_def processable_migrate)

lemma process_records_rerun:
  assumes d: "distinct (map key_attrs (therapies db))"
    and run: "process_records srcs db (filter src_name_filter (therapies db)) = Inr db1"
  shows "\<exists>db2. process_records srcs db1 (filter src_name_filter (therapies db1)) = Inr db2 \<and>
           therapies db2 = therapies db1"
proof -
  let ?rows = "therapies db"
  have t: "therapies db = [] @ ?rows @ []" by simp
  have d': "distinct (map key_attrs ([] @ ?rows @ []))" using d by simp
  from process_records_segment [OF t d' run]
  have t1: "therapies db1 = map (migrated srcs) ?rows" by simp
  from process_records_Inr_processable [OF run]
  have ok: "\<forall>r\<in>set ?rows. src_name_filter r \<longrightarrow> processable srcs r" by simp
  have "\<forall>r\<in>set (filter src_name_filter (therapies db1)). processable srcs r"
    using ok by (auto simp: t1 src_name_filter_migrated processable_migrated)
  from process_records_processable [OF this] obtain db2 where
    run2: "process_records srcs db1 (filter src_name_filter (therapies db1)) = Inr db2"
    by blast
  have t': "therapies db1 = [] @ therapies db1 @ []" by simp
  have "map key_attrs (therapies db1) = map key_attrs ?rows"
    by (simp add: t1 key_attrs_migrated comp_def)
  with d have d1: "distinct (map key_attrs ([] @ therapies db1 @ []))" by simp
  from process_records_segment [OF t' d1 run2]
  have "therapies db2 = map (migrated srcs) (therapies db1)" by simp
  also have "\<dots> = therapies db1"
    by (simp add: t1 migrated_idem comp_def)
  finally show ?thesis using run2 by blast
qed

lemma update_rows_tail:
  assumes "keeps_key u"
    and "(Some (S (fst k)), Some (S (snd k))) \<in> set (take m (map key_attrs rows))"
  shows "drop m (update_rows k u rows) = drop m rows \<and>
         map key_attrs (update_rows k u rows) = map key_attrs rows"
  using assms(2)
proof (induction rows arbitrary: m)
  case Nil
  then show ?case by simp
next
  case (Cons r rows)
  then obtain m' where m: "m = Suc m'" by (cases m) auto
  show ?case
  proof (cases "has_key k r")
    case True
    with m assms(1) show ?thesis by (simp add: key_attrs_apply_update)
  next
    case False
    then have "key_attrs r \<noteq> (Some (S (fst k)), Some (S (snd k)))"
      by (simp add: has_key_iff)
    with Cons.prems m have "(Some (S (fst k)), Some (S (snd k))) \<in> set (take m' (map key_attrs rows))"
      by auto
    from Cons.IH [OF this] False m show ?thesis by simp
  qed
qed

lemma table_update_item_tail:
  assumes "keeps_key u"
    and "(Some (S (fst k)), Some (S (snd k))) \<in> set (take m (map key_attrs (therapies db)))"
  shows "drop m (therapies (table_update_item db k u)) = drop m (therapies db)"
    and "map key_attrs (therapies (table_update_item db k u)) = map key_attrs (therapies db)"
    and "page_rows (table_update_item db k u) = page_rows db"
  using update_rows_tail [OF assms] by (simp_all add: table_update_item_def)

lemma same_tail_refl: "same_tail m db db"
  by (simp add: same_tail_def)

lemma same_tail_trans: "same_tail m a b \<Longrightarrow> same_tail m b c \<Longrightarrow> same_tail m a c"
  by (simp add: same_tail_def)

lemma same_tail_table_update_item:
  assumes "keeps_key u"
    and "(Some (S (fst k)), Some (S (snd k))) \<in> set (take m (map key_attrs (therapies db)))"
  shows "same_tail m db (table_update_item db k u)"
  using table_update_item_tail [OF assms] by (simp add: same_tail_def)

lemma same_tail_update_item:
  assumes k: "(Some (S ri), Some (S rc)) \<in> set (take m (map key_attrs (therapies db)))"
  shows "same_tail m db (update_item db ri rc other_ids xrefs)"
proof -
  let ?k = "(ri, rc)"
  let ?u1 = "Set [(''other_identifiers'', L (map S other_ids)), (''xrefs'', L (map S xrefs))]"
  define db1 where "db1 = table_update_item db ?k ?u1"
  define db2 where "db2 = (if xrefs = [] then table_update_item db1 ?k (Remove ''xrefs'') else db1)"
  define db3 where
    "db3 = (if other_ids = [] then table_update_item db2 ?k (Remove ''other_identifiers'') else db2)"
  have u: "update_item db ri rc other_ids xrefs = db3"
    by (simp add: update_item_def Let_def db1_def db2_def db3_def)
  have 1: "same_tail m db db1"
    unfolding db1_def using k by (intro same_tail_table_update_item) simp_all
  then have k1: "(Some (S ri), Some (S rc)) \<in> set (take m (map key_attrs (therapies db1)))"
    using k by (simp add: same_tail_def)
  have 12: "same_tail m db1 db2"
    unfolding db2_def using k1 by (simp add: same_tail_refl same_tail_table_update_item)
  then have k2: "(Some (S ri), Some (S rc)) \<in> set (take m (map key_attrs (therapies db2)))"
    using k1 by (simp add: same_tail_def)
  have 23: "same_tail m db2 db3"
    unfolding db3_def using k2 by (simp add: same_tail_refl same_tail_table_update_item)
  from 1 12 23 show ?thesis
    unfolding u by (blast intro: same_tail_trans)
qed

lemma same_tail_process_record:
  assumes "process_record srcs db r = Inr db'"
    and "key_attrs r \<in> set (take m (map key_attrs (therapies db)))"
  shows "same_tail m db db'"
proof -
  from process_record_cases [OF assms(1)] show ?thesis
  proof (elim disjE conjE exE)
    assume "db' = db"
    then show ?thesis by (simp add: same_tail_refl)
  next
    fix ri rc other_ids xrefs
    assume k: "has_key (ri, rc) r" and u: "db' = update_item db ri rc other_ids xrefs"
    from k have "key_attrs r = (Some (S ri), Some (S rc))" by (simp add: has_key_iff)
    with assms(2) show ?thesis unfolding u by (intro same_tail_update_item) simp
  qed
qed

lemma same_tail_process_records:
  assumes "process_records srcs db rs = Inr db'"
    and "\<forall>r\<in>set rs. key_attrs r \<in> set (take m (map key_attrs (therapies db)))"
  shows "same_tail m db db'"
  using assms
proof (induction rs arbitrary: db)
  case Nil
  then show ?case by (simp add: same_tail_refl)
next
  case (Cons r rs)
  from process_records_step [OF Cons.prems(1)] obtain db1 where
    1: "process_record srcs db r = Inr db1" and 2: "process_records srcs db1 rs = Inr db'"
    by blast
  from Cons.prems(2) have "key_attrs r \<in> set (take m (map key_attrs (therapies db)))" by simp
  from same_tail_process_record [OF 1 this] have s1: "same_tail m db db1" .
  then have "\<forall>r\<in>set rs. key_attrs r \<in> set (take m (map key_attrs (therapies db1)))"
    using Cons.prems(2) by (simp add: same_tail_def)
  from Cons.IH [OF 2 this] s1 show ?case by (blast intro: same_tail_trans)
qed

lemma process_records_append:
  "process_records srcs db (xs @ ys) =
     (case process_records srcs db xs of Inl e \<Rightarrow> Inl e | Inr db' \<Rightarrow> process_records srcs db' ys)"
  by (induction xs arbitrary: db) (simp_all split: sum.splits)

lemma page_keys:
  "\<forall>r\<in>set (filter P (take n (drop pos rows))).
     key_attrs r \<in> set (take (pos + n) (map key_attrs rows))"
proof
  fix r assume "r \<in> set (filter P (take n (drop pos rows)))"
  then have "r \<in> set (take n (drop pos rows))" by simp
  then have "r \<in> set (drop pos (take (n + pos) rows))" by (simp add: take_drop)
  then have "r \<in> set (take (pos + n) rows)"
    using set_drop_subset [of pos "take (n + pos) rows"] by (auto simp: add.commute)
  then show "key_attrs r \<in> set (take (pos + n) (map key_attrs rows))"
    by (simp add: take_map)
qed

lemma scan_loop_eq:
  "scan_loop srcs db tok =
     Some (process_records srcs db (filter src_name_filter (drop (token_pos tok) (therapies db))))"
proof (induction "length (therapies db) - token_pos tok" arbitrary: db tok rule: less_induct)
  case less
  let ?rows = "therapies db" and ?pos = "token_pos tok" and ?n = "Suc (page_rows db)"
  let ?page = "filter src_name_filter (take ?n (drop ?pos ?rows))"
  let ?rest = "filter src_name_filter (drop (?pos + ?n) ?rows)"
  have sc: "scan db tok = (?page, if ?pos + ?n < length ?rows then Some (?pos + ?n) else None)"
    by (simp add: scan_def token_pos_def Let_def)
  have split: "filter src_name_filter (drop ?pos ?rows) = ?page @ ?rest"
  proof -
    have "drop ?pos ?rows = take ?n (drop ?pos ?rows) @ drop ?n (drop ?pos ?rows)"
      by (rule append_take_drop_id [symmetric])
    then have "filter src_name_filter (drop ?pos ?rows) =
        ?page @ filter src_name_filter (drop ?n (drop ?pos ?rows))"
      by (metis filter_append)
    then show ?thesis by (simp add: add.commute)
  qed
  show ?case
  proof (cases "process_records srcs db ?page")
    case (Inl e)
    then have "scan_loop srcs db tok = Some (Inl e)"
      by (subst scan_loop.simps) (simp add: sc)
    moreover have "process_records srcs db (filter src_name_filter (drop ?pos ?rows)) = Inl e"
      unfolding split using Inl by (simp add: process_records_append)
    ultimately show ?thesis by simp
  next
    case (Inr db1)
    from same_tail_process_records [OF Inr page_keys]
    have st: "same_tail (?pos + ?n) db db1" .
    then have len: "length (therapies db1) = length ?rows"
      unfolding same_tail_def by (metis length_map)
    show ?thesis
    proof (cases "?pos + ?n < length ?rows")
      case False
      then have "?rest = []" by simp
      then have "process_records srcs db (filter src_name_filter (drop ?pos ?rows)) = Inr db1"
        unfolding split using Inr by (simp add: process_records_append)
      moreover have "scan_loop srcs db tok = Some (Inr db1)"
        using False Inr by (subst scan_loop.simps) (simp add: sc)
      ultimately show ?thesis by simp
    next
      case True
      have "scan_loop srcs db tok = scan_loop srcs db1 (Some (?pos + ?n))"
        using True Inr by (subst scan_loop.simps) (simp add: sc)
      also have "\<dots> = Some (process_records srcs db1
          (filter src_name_filter (drop (token_pos (Some (?pos + ?n))) (therapies db1))))"
      proof (rule less)
        show "length (therapies db1) - token_pos (Some (?pos + ?n)) < length ?rows - ?pos"
          using True len by (simp add: token_pos_def)
      qed
      also have "drop (token_pos (Some (?pos + ?n))) (therapies db1) = drop (?pos + ?n) ?rows"
        using st by (simp add: same_tail_def token_pos_def)
      also have "Some (process_records srcs db1 ?rest) =
          Some (process_records srcs db (filter src_name_filter (drop ?pos ?rows)))"
        unfolding split using Inr by (simp add: process_records_append)
      finally show ?thesis .
    qed
  qed
qed

lemma update_xrefs_other_ids_eq:
  "update_xrefs_other_ids srcs db =
     Some (process_records srcs db (filter src_name_filter (therapies db)))"
  by (simp add: update_xrefs_other_ids_def scan_loop_eq token_pos_def)

subsection \<open>Running the job again\<close>

lemma example_rerun_run:
  "update_xrefs_other_ids example_srcs example_migrated = Some (Inr example_rerun)"
  by (simp add: update_xrefs_other_ids_def scan_loop.simps scan_def example_migrated_def
      src_name_filter_def example_migrated_item_def process_record_def reclassify_def
      add_xrefs_other_ids_def example_srcs_def split_first_def update_item_def
      table_update_item_def has_key_def Let_def example_rerun_def example_writes_def
      example_key_def)

lemma example_distinct: "distinct (map key_attrs (therapies example_db))"
  by (simp add: example_db_def)

lemma writes_update_item_requests:
  "writes (update_item db ri rc os xs) = writes db @ item_requests (ri, rc) os xs"
  by (simp add: writes_update_item item_requests_def)

lemma process_record_grows:
  assumes "process_record srcs db r = Inr db'"
  shows "\<exists>ws. writes db' = writes db @ ws \<and>
           (\<forall>ri rc. has_key (ri, rc) r \<and> str_contains ri ''##identity'' \<longrightarrow>
              (\<exists>os xs. ((ri, rc), Set [(''other_identifiers'', L (map S os)), (''xrefs'', L (map S xs))])
                 \<in> set ws))"
proof -
  from process_record_cases [OF assms] show ?thesis
  proof (elim disjE conjE exE)
    fix ri rc
    assume same: "db' = db" and k: "has_key (ri, rc) r" and n: "\<not> str_contains ri ''##identity''"
    have "\<not> (has_key (ri', rc') r \<and> str_contains ri' ''##identity'')" for ri' rc'
    proof
      assume a: "has_key (ri', rc') r \<and> str_contains ri' ''##identity''"
      then have "has_key (ri', rc') r" by simp
      from has_key_inj [OF this k] have "ri' = ri" by simp
      with a n show False by simp
    qed
    with same show ?thesis by simp
  next
    fix ri rc os xs
    assume k: "has_key (ri, rc) r" and u: "db' = update_item db ri rc os xs"
    have w: "writes db' = writes db @ item_requests (ri, rc) os xs"
      unfolding u by (rule writes_update_item_requests)
    have m: "((ri, rc), Set [(''other_identifiers'', L (map S os)), (''xrefs'', L (map S xs))])
                 \<in> set (item_requests (ri, rc) os xs)"
      by (simp add: item_requests_def)
    have "\<forall>ri' rc'. has_key (ri', rc') r \<and> str_contains ri' ''##identity'' \<longrightarrow>
        (\<exists>os' xs'. ((ri', rc'), Set [(''other_identifiers'', L (map S os')), (''xrefs'', L (map S xs'))])
                 \<in> set (item_requests (ri, rc) os xs))"
    proof (intro allI impI)
      fix ri' rc'
      assume "has_key (ri', rc') r \<and> str_contains ri' ''##identity''"
      then have "has_key (ri', rc') r" by (rule conjunct1)
      from has_key_inj [OF this k] have "(ri', rc') = (ri, rc)" .
      with m have "((ri', rc'), Set [(''other_identifiers'', L (map S os)), (''xrefs'', L (map S xs))])
                 \<in> set (item_requests (ri, rc) os xs)"
        by (rule ssubst [where P = "\<lambda>x. (x, _) \<in> _", rotated])
      then show "\<exists>os' xs'. ((ri', rc'), Set [(''other_identifiers'', L (map S os')), (''xrefs'', L (map S xs'))])
                 \<in> set (item_requests (ri, rc) os xs)"
        by (intro exI)
    qed
    with w show ?thesis by (intro exI [of _ "item_requests (ri, rc) os xs"] conjI)
  qed
qed

lemma process_records_grows:
  assumes "process_records srcs db rs = Inr db'"
  shows "\<exists>ws. writes db' = writes db @ ws \<and>
           (\<forall>r\<in>set rs. \<forall>ri rc. has_key (ri, rc) r \<and> str_contains ri ''##identity'' \<longrightarrow>
              (\<exists>os xs. ((ri, rc), Set [(''other_identifiers'', L (map S os)), (''xrefs'', L (map S xs))])
                 \<in> set ws))"
  using assms
proof (induction rs arbitrary: db)
  case Nil
  then show ?case by simp
next
  case (Cons r rs)
  from process_records_step [OF Cons.prems] obtain db1 where
    1: "process_record srcs db r = Inr db1" and 2: "process_records srcs db1 rs = Inr db'"
    by blast
  from process_record_grows [OF 1] obtain ws1 where
    w1: "writes db1 = writes db @ ws1"
    and s1: "\<forall>ri rc. has_key (ri, rc) r \<and> str_contains ri ''##identity'' \<longrightarrow>
              (\<exists>os xs. ((ri, rc), Set [(''other_identifiers'', L (map S os)), (''xrefs'', L (map S xs))])
                 \<in> set ws1)"
    by blast
  from Cons.IH [OF 2] obtain ws2 where
    w2: "writes db' = writes db1 @ ws2"
    and s2: "\<forall>r\<in>set rs. \<forall>ri rc. has_key (ri, rc) r \<and> str_contains ri ''##identity'' \<longrightarrow>
              (\<exists>os xs. ((ri, rc), Set [(''other_identifiers'', L (map S os)), (''xrefs'', L (map S xs))])
                 \<in> set ws2)"
    by blast
  have "writes db' = writes db @ (ws1 @ ws2)"
    using w1 w2 by simp
  moreover have "\<forall>r'\<in>set (r # rs). \<forall>ri rc. has_key (ri, rc) r' \<and> str_contains ri ''##identity'' \<longrightarrow>
              (\<exists>os xs. ((ri, rc), Set [(''other_identifiers'', L (map S os)), (''xrefs'', L (map S xs))])
                 \<in> set (ws1 @ ws2))"
  proof (intro ballI allI impI)
    fix r' ri rc
    assume r': "r' \<in> set (r # rs)" and h: "has_key (ri, rc) r' \<and> str_contains ri ''##identity''"
    from r' have "r' = r \<or> r' \<in> set rs" by simp
    then show "\<exists>os xs. ((ri, rc), Set [(''other_identifiers'', L (map S os)), (''xrefs'', L (map S xs))])
                 \<in> set (ws1 @ ws2)"
    proof
      assume "r' = r"
      with s1 h obtain os xs where
        "((ri, rc), Set [(''other_identifiers'', L (map S os)), (''xrefs'', L (map S xs))]) \<in> set ws1"
        by blast
      then show ?thesis by auto
    next
      assume "r' \<in> set rs"
      with s2 h obtain os xs where
        "((ri, rc), Set [(''other_identifiers'', L (map S os)), (''xrefs'', L (map S xs))]) \<in> set ws2"
        by blast
      then show ?thesis by auto
    qed
  qed
  ultimately show ?case by blast
qed

lemma example_migrated_filter: "src_name_filter example_migrated_item"
  by (simp add: src_name_filter_def example_migrated_item_def)

lemma example_migrated_key: "has_key (''rxcui:1191##identity'', ''rxcui:1191'') example_migrated_item"
  by (simp add: has_key_def example_migrated_item_def)

text \<open>
  Claim C6 as stated fails: on the table that a first run has migrated, a second
  run sends two more requests.
\<close>

theorem rerun_writes_counterexample:
  "update_xrefs_other_ids example_srcs example_db = Some (Inr example_migrated) \<and>
   update_xrefs_other_ids example_srcs example_migrated = Some (Inr example_rerun) \<and>
   length (writes example_rerun) = length (writes example_migrated) + 2"
  using example_run example_rerun_run
  by (simp add: example_rerun_def example_migrated_def example_writes_def)

text \<open>
  Claim C6, amended.  On a table whose primary keys are unique, when a first run
  of the job returns, a second run on the table it left returns as well and leaves
  every stored row as the first run left it.  The second run only appends to the
  requests sent so far, and for every identity row of that table that the scan
  returns, that is, whose \<open>src_name\<close> is not ChEMBL, the requests it
  appends contain one that sets \<open>other_identifiers\<close> and \<open>xrefs\<close>
  of that row's key.
\<close>

theorem rerun_keeps_rows:
  assumes "distinct (map key_attrs (therapies db))"
    and "update_xrefs_other_ids srcs db = Some (Inr db1)"
  shows "\<exists>db2 ws. update_xrefs_other_ids srcs db1 = Some (Inr db2) \<and>
           therapies db2 = therapies db1 \<and> writes db2 = writes db1 @ ws \<and>
           (\<forall>r\<in>set (therapies db1). \<forall>ri rc.
              src_name_filter r \<and> has_key (ri, rc) r \<and> str_contains ri ''##identity'' \<longrightarrow>
              (\<exists>os xs. ((ri, rc), Set [(''other_identifiers'', L (map S os)), (''xrefs'', L (map S xs))])
                 \<in> set ws))"
proof -
  from assms(2) have run: "process_records srcs db (filter src_name_filter (therapies db)) = Inr db1"
    by (simp add: update_xrefs_other_ids_eq)
  from process_records_rerun [OF assms(1) run] obtain db2 where
    run2: "process_records srcs db1 (filter src_name_filter (therapies db1)) = Inr db2"
    and t: "therapies db2 = therapies db1"
    by blast
  from process_records_grows [OF run2] obtain ws where
    w: "writes db2 = writes db1 @ ws"
    and s: "\<forall>r\<in>set (filter src_name_filter (therapies db1)). \<forall>ri rc.
              has_key (ri, rc) r \<and> str_contains ri ''##identity'' \<longrightarrow>
              (\<exists>os xs. ((ri, rc), Set [(''other_identifiers'', L (map S os)), (''xrefs'', L (map S xs))])
                 \<in> set ws)"
    by blast
  have "update_xrefs_other_ids srcs db1 = Some (Inr db2)"
    using run2 by (simp add: update_xrefs_other_ids_eq)
  moreover from s have "\<forall>r\<in>set (therapies db1). \<forall>ri rc.
              src_name_filter r \<and> has_key (ri, rc) r \<and> str_contains ri ''##identity'' \<longrightarrow>
              (\<exists>os xs. ((ri, rc), Set [(''other_identifiers'', L (map S os)), (''xrefs'', L (map S xs))])
                 \<in> set ws)"
    by auto
  ultimately show ?thesis using t w by blast
qed

theorem rerun_keeps_rows_witness:
  "distinct (map key_attrs (therapies example_db)) \<and>
   update_xrefs_other_ids example_srcs example_db = Some (Inr example_migrated) \<and>
   src_name_filter example_migrated_item \<and>
   has_key (''rxcui:1191##identity'', ''rxcui:1191'') example_migrated_item \<and>
   str_contains ''rxcui:1191##identity'' ''##identity'' \<and>
   (\<exists>db2 ws os xs. update_xrefs_other_ids example_srcs example_migrated = Some (Inr db2) \<and>
      therapies db2 = therapies example_migrated \<and> writes db2 = writes example_migrated @ ws \<and>
      ((''rxcui:1191##identity'', ''rxcui:1191''),
       Set [(''other_identifiers'', L (map S os)), (''xrefs'', L (map S xs))]) \<in> set ws)"
proof -
  from rerun_keeps_rows [OF example_distinct example_run] obtain db2 ws where
    1: "update_xrefs_other_ids example_srcs example_migrated = Some (Inr db2)"
      "therapies db2 = therapies example_migrated" "writes db2 = writes example_migrated @ ws"
    and 2: "\<forall>r\<in>set (therapies example_migrated). \<forall>ri rc.
              src_name_filter r \<and> has_key (ri, rc) r \<and> str_contains ri ''##identity'' \<longrightarrow>
              (\<exists>os xs. ((ri, rc), Set [(''other_identifiers'', L (map S os)), (''xrefs'', L (map S xs))])
                 \<in> set ws)"
    by blast
  have "example_migrated_item \<in> set (therapies example_migrated)"
    by (simp add: example_migrated_def)
  with 2 example_migrated_filter example_migrated_key example_identity obtain os xs where
    "((''rxcui:1191##identity'', ''rxcui:1191''),
       Set [(''other_identifiers'', L (map S os)), (''xrefs'', L (map S xs))]) \<in> set ws"
    by blast
  with 1 example_distinct example_run example_migrated_filter example_migrated_key example_identity
  show ?thesis by blast
qed
section \<open>Properties of the RxNorm adapter\<close>

subsection \<open>Records and tables along the two passes\<close>

lemma set_update_subset: "set (AList.update k v al) \<subseteq> insert (k, v) (set al)"
  by (induction al) auto

lemma dup_free_Nil: "dup_free []"
  by (simp add: dup_free_def)

lemma dup_free_update:
  assumes "dup_free d" and "distinct vs"
  shows "dup_free (AList.update k vs d)"
  unfolding dup_free_def
proof (intro allI impI)
  fix k' vs' assume "(k', vs') \<in> set (AList.update k vs d)"
  with set_update_subset [of k vs d] have "(k', vs') = (k, vs) \<or> (k', vs') \<in> set d" by blast
  with assms show "distinct vs'" unfolding dup_free_def by blast
qed

lemma dup_free_map_of: "dup_free d \<Longrightarrow> map_of d k = Some vs \<Longrightarrow> distinct vs"
  unfolding dup_free_def using map_of_SomeD by fast

lemma dup_free_add_term_to_field:
  assumes "dup_free d"
  shows "dup_free (add_term_to_field d field t)"
proof (cases "map_of d field")
  case None
  then have "add_term_to_field d field t = AList.update field [t] d"
    by (simp add: add_term_to_field_def)
  with assms show ?thesis by (simp add: dup_free_update)
next
  case (Some vs)
  with assms have dv: "distinct vs" by (rule dup_free_map_of)
  consider "vs = []" | "vs \<noteq> []" "t \<in> set vs" | "vs \<noteq> []" "t \<notin> set vs" by blast
  then show ?thesis
  proof cases
    case 1
    with Some have "add_term_to_field d field t = AList.update field [t] d"
      by (simp add: add_term_to_field_def)
    with assms show ?thesis by (simp add: dup_free_update)
  next
    case 2
    with Some have "add_term_to_field d field t = d"
      by (simp add: add_term_to_field_def)
    with assms show ?thesis by simp
  next
    case 3
    with Some have "add_term_to_field d field t = AList.update field (vs @ [t]) d"
      by (simp add: add_term_to_field_def)
    moreover from dv 3 have "distinct (vs @ [t])" by simp
    ultimately show ?thesis using assms by (simp add: dup_free_update)
  qed
qed

lemma dup_free_add_term_to_record:
  "dup_free (lists r) \<Longrightarrow> dup_free (lists (add_term_to_record r field t))"
  by (simp add: add_term_to_record_def dup_free_add_term_to_field)

lemma strs_add_term_to_record [simp]: "strs (add_term_to_record r field t) = strs r"
  by (simp add: add_term_to_record_def)

lemma lists_set_str [simp]: "lists (set_str k v r) = lists r"
  by (simp add: set_str_def)

lemma lists_del_str [simp]: "lists (del_str k r) = lists r"
  by (simp add: del_str_def)

lemma strs_set_list [simp]: "strs (set_list k v r) = strs r"
  by (simp add: set_list_def)

lemma dup_free_set_list: "dup_free (lists r) \<Longrightarrow> distinct vs \<Longrightarrow> dup_free (lists (set_list k vs r))"
  by (simp add: set_list_def dup_free_update)

lemma add_terms_Nil: "add_terms r field [] = r"
  by (simp add: add_terms_def)

lemma add_terms_Cons:
  "add_terms r field (tn # tns) = add_terms (add_term_to_record r field tn) field tns"
  by (simp add: add_terms_def)

lemma add_terms_append: "add_terms r field (xs @ ys) = add_terms (add_terms r field xs) field ys"
  by (simp add: add_terms_def)

lemma strs_add_terms [simp]: "strs (add_terms r field tns) = strs r"
  by (induction tns arbitrary: r) (simp_all add: add_terms_Nil add_terms_Cons)

lemma dup_free_add_terms: "dup_free (lists r) \<Longrightarrow> dup_free (lists (add_terms r field tns))"
  by (induction tns arbitrary: r)
    (simp_all add: add_terms_Nil add_terms_Cons dup_free_add_term_to_record)

lemma fold_add_terms: "fold (\<lambda>l r. add_terms r field (f l)) ls r = add_terms r field (concat (map f ls))"
  by (induction ls arbitrary: r) (simp_all add: add_terms_append add_terms_Nil)

lemma get_trade_names_Inr:
  assumes "get_trade_names e r pi ib sbdfs = Inr r'"
  shows "\<exists>tns. r' = add_terms r ''trade_names'' tns"
proof -
  from assms obtain l where l: "get_str r ''label'' = Inr l"
    by (cases "get_str r ''label''") (simp_all add: get_trade_names_def)
  let ?X = "concat (map (\<lambda>label. list_set (concat (map snd
                              (filter (\<lambda>(key, val). label = lower e key) ib))))
      (lower e l #
                 (case map_of (strs r) ''PIN'' of
                    Some (Some pin) \<Rightarrow>
                      (case map_of pi pin of
                         Some pins \<Rightarrow> map (lower e) pins
                       | None \<Rightarrow> [])
                  | _ \<Rightarrow> [])))"
  have eq: "get_trade_names e r pi ib sbdfs =
      Inr (case map_of sbdfs (lower e l) of
             Some tns \<Rightarrow> add_terms (add_terms r ''trade_names'' ?X) ''trade_names'' tns
           | None \<Rightarrow> add_terms r ''trade_names'' ?X)"
    by (simp only: get_trade_names_def Let_def fold_add_terms l sum.case)
  show ?thesis
  proof (cases "map_of sbdfs (lower e l)")
    case None
    from eq have "get_trade_names e r pi ib sbdfs = Inr (add_terms r ''trade_names'' ?X)"
      by (simp only: None option.case)
    with assms have "r' = add_terms r ''trade_names'' ?X" by (simp only: sum.inject)
    then show ?thesis ..
  next
    case (Some tns)
    from eq have "get_trade_names e r pi ib sbdfs =
        Inr (add_terms (add_terms r ''trade_names'' ?X) ''trade_names'' tns)"
      by (simp only: Some option.case)
    with assms have "r' = add_terms (add_terms r ''trade_names'' ?X) ''trade_names'' tns"
      by (simp only: sum.inject)
    then have "r' = add_terms r ''trade_names'' (?X @ tns)" by (simp only: add_terms_append)
    then show ?thesis ..
  qed
qed

lemma get_trade_names_strs:
  assumes "get_trade_names e r pi ib sbdfs = Inr r'"
  shows "strs r' = strs r"
proof -
  from get_trade_names_Inr [OF assms] obtain tns where "r' = add_terms r ''trade_names'' tns" ..
  then show ?thesis by (simp only: strs_add_terms)
qed

lemma get_trade_names_dup_free:
  assumes "get_trade_names e r pi ib sbdfs = Inr r'" and "dup_free (lists r)"
  shows "dup_free (lists r')"
proof -
  from get_trade_names_Inr [OF assms(1)] obtain tns where "r' = add_terms r ''trade_names'' tns" ..
  with assms(2) show ?thesis by (simp only: dup_free_add_terms)
qed

lemma record_ok_new: "record_ok k (set_str ''concept_id'' k empty_dict)"
  by (simp add: record_ok_def set_str_def empty_dict_def dup_free_Nil)

lemma record_ok_set_str:
  "record_ok k r \<Longrightarrow> a \<noteq> ''concept_id'' \<Longrightarrow> record_ok k (set_str a v r)"
  by (simp add: record_ok_def set_str_def update_conv')

lemma record_ok_set_list:
  "record_ok k r \<Longrightarrow> distinct vs \<Longrightarrow> record_ok k (set_list a vs r)"
  by (simp add: record_ok_def dup_free_set_list)

lemma record_ok_add_term_to_record:
  "record_ok k r \<Longrightarrow> record_ok k (add_term_to_record r field t)"
  by (simp add: record_ok_def dup_free_add_term_to_record)

lemma record_ok_add_str_field:
  assumes "record_ok k p"
  shows "record_ok k (fst (add_str_field e p row pi dfs sb))"
proof -
  define p1 where "p1 =
            (if (col12 row = ''IN'' \<or> col12 row = ''PIN'') \<and> col11 row = ''RXNORM''
             then (let p' = set_str ''label'' (col14 row) p
                   in if col17 row = ''4096''
                      then set_list ''approval_ratings'' [RXNORM_PRESCRIBABLE e] p' else p')
             else if col12 row \<in> set ALIASES then add_term_to_record p ''aliases'' (col14 row)
             else if col12 row \<in> set TRADE_NAMES then add_term_to_record p ''trade_names'' (col14 row)
             else p)"
  have ok1: "record_ok k p1"
    unfolding p1_def Let_def using assms
    by (simp add: record_ok_set_str record_ok_set_list record_ok_add_term_to_record)
  have "fst (add_str_field e p row pi dfs sb) = p1 \<or>
        fst (add_str_field e p row pi dfs sb) = set_str ''PIN'' (col13 row) p1"
    unfolding add_str_field_def Let_def p1_def by simp
  with ok1 show ?thesis
    by (auto simp: record_ok_set_str)
qed

lemma record_ok_add_xref_assoc:
  assumes "add_xref_assoc e p row = Inr p'" and "record_ok k p"
  shows "record_ok k p'"
proof -
  have "p' = p \<or> (\<exists>field t. p' = add_term_to_record p field t)"
    using assms(1) unfolding add_xref_assoc_def Let_def
    by (auto split: if_splits sum.splits option.splits)
  with assms(2) show ?thesis
    by (auto simp: record_ok_add_term_to_record)
qed

lemma tables_ok_empty: "tables_ok empty_tables"
  by (simp add: tables_ok_def empty_tables_def)

lemma tables_ok_update:
  assumes "tables_ok st" and "record_ok k r"
    and "records st' = AList.update k r (records st)"
  shows "tables_ok st'"
  unfolding tables_ok_def
proof (intro conjI allI impI)
  show "distinct (map fst (records st'))"
    using assms(1,3) by (simp add: tables_ok_def distinct_update)
next
  fix k' r' assume "(k', r') \<in> set (records st')"
  with assms(3) set_update_subset [of k r "records st"]
  have "(k', r') = (k, r) \<or> (k', r') \<in> set (records st)" by auto
  with assms(1,2) show "record_ok k' r'"
    unfolding tables_ok_def by blast
qed

lemma tables_ok_same_records: "tables_ok st \<Longrightarrow> records st' = records st \<Longrightarrow> tables_ok st'"
  by (simp add: tables_ok_def)

lemma transform_row_cases:
  assumes "transform_row e dfs st row = Inr st'"
  shows "records st' = records st \<or>
         (\<not> (col12 row = ''SBDC'' \<and> col11 row = ''RXNORM'') \<and>
          (\<exists>r2. add_xref_assoc e
                  (fst (add_str_field e (row_record e st row) row (precise_ingredient_to_brand st)
                     dfs (ingredient_to_sbdf st))) row = Inr r2 \<and>
                records st' = AList.update (namespaced (NamespacePrefix_RXNORM e) (col0 row)) r2 (records st)))"
proof (cases "col11 row \<in> set RXNORM_XREFS")
  case False
  with assms show ?thesis by (simp add: transform_row_def)
next
  case True
  let ?cid = "namespaced (NamespacePrefix_RXNORM e) (col0 row)"
  show ?thesis
  proof (cases "col12 row = ''SBDC'' \<and> col11 row = ''RXNORM''")
    case sbdc: True
    with assms True show ?thesis
      by (auto simp: transform_row_def Let_def)
  next
    case other: False
    obtain r1 pi sb where a: "add_str_field e (row_record e st row) row
        (precise_ingredient_to_brand st) dfs (ingredient_to_sbdf st) = (r1, pi, sb)"
      by (cases "add_str_field e (row_record e st row) row
        (precise_ingredient_to_brand st) dfs (ingredient_to_sbdf st)")
    show ?thesis
    proof (cases "add_xref_assoc e r1 row")
      case (Inl err)
      with assms True other a show ?thesis
        by (simp add: transform_row_def Let_def row_record_def split: if_splits)
    next
      case (Inr r2)
      with assms True other a have "records st' = AList.update ?cid r2 (records st)"
        by (auto simp: transform_row_def Let_def row_record_def split: if_splits)
      with Inr a other show ?thesis by simp
    qed
  qed
qed

lemma record_ok_row_record: "tables_ok st \<Longrightarrow> record_ok (namespaced (NamespacePrefix_RXNORM e) (col0 row)) (row_record e st row)"
proof (cases "map_of (records st) (namespaced (NamespacePrefix_RXNORM e) (col0 row))")
  case None
  then show ?thesis by (simp add: row_record_def record_ok_new)
next
  case (Some r)
  assume "tables_ok st"
  moreover from Some have "(namespaced (NamespacePrefix_RXNORM e) (col0 row), r) \<in> set (records st)"
    by (rule map_of_SomeD)
  ultimately have "record_ok (namespaced (NamespacePrefix_RXNORM e) (col0 row)) r"
    unfolding tables_ok_def by blast
  with Some show ?thesis by (simp add: row_record_def)
qed

lemma tables_ok_transform_row:
  assumes "transform_row e dfs st row = Inr st'" and "tables_ok st"
  shows "tables_ok st'"
proof -
  from transform_row_cases [OF assms(1)] show ?thesis
  proof (elim disjE conjE exE)
    assume "records st' = records st"
    with assms(2) show ?thesis by (rule tables_ok_same_records)
  next
    fix r2
    assume x: "add_xref_assoc e
                  (fst (add_str_field e (row_record e st row) row (precise_ingredient_to_brand st)
                     dfs (ingredient_to_sbdf st))) row = Inr r2"
      and u: "records st' = AList.update (namespaced (NamespacePrefix_RXNORM e) (col0 row)) r2 (records st)"
    have "record_ok (namespaced (NamespacePrefix_RXNORM e) (col0 row)) r2"
      using x record_ok_add_str_field [OF record_ok_row_record [OF assms(2)]]
      by (rule record_ok_add_xref_assoc)
    with assms(2) show ?thesis using u by (rule tables_ok_update)
  qed
qed

lemma transform_rows_step:
  "transform_rows e dfs st (row # rows) = Inr st' \<Longrightarrow>
   \<exists>st1. transform_row e dfs st row = Inr st1 \<and> transform_rows e dfs st1 rows = Inr st'"
  by (cases "transform_row e dfs st row") simp_all

lemma tables_ok_transform_rows:
  "transform_rows e dfs st rows = Inr st' \<Longrightarrow> tables_ok st \<Longrightarrow> tables_ok st'"
proof (induction rows arbitrary: st)
  case Nil
  then show ?case by simp
next
  case (Cons row rows)
  from transform_rows_step [OF Cons.prems(1)] obtain st1 where
    1: "transform_row e dfs st row = Inr st1" and 2: "transform_rows e dfs st1 rows = Inr st'"
    by blast
  from tables_ok_transform_row [OF 1 Cons.prems(2)] have "tables_ok st1" .
  with 2 show ?case by (rule Cons.IH)
qed

lemma load_record_unlabelled: "\<not> has_label r \<Longrightarrow> load_record e st r = Inr []"
  by (simp add: load_record_def has_label_def)

lemma brand_items_concept_id:
  "brand_items e r brands tns = Inr items \<Longrightarrow>
   \<forall>i\<in>set items. map_of (strs i) ''concept_id'' = map_of (strs r) ''concept_id''"
proof (induction tns arbitrary: items)
  case Nil
  then show ?case by simp
next
  case (Cons tn tns)
  show ?case
  proof (cases "map_of brands tn")
    case None
    with Cons show ?thesis by simp
  next
    case (Some b)
    show ?thesis
    proof (cases "b = []")
      case True
      with Some Cons show ?thesis by simp
    next
      case False
      show ?thesis
      proof (cases "map_of (strs r) ''concept_id''")
        case None
        with Some False Cons.prems show ?thesis by simp
      next
        case cid: (Some c)
        show ?thesis
        proof (cases "brand_items e r brands tns")
          case (Inl err)
          with Some False cid Cons.prems show ?thesis by simp
        next
          case (Inr items')
          with Some False cid Cons.prems have
            "items = \<lparr>strs = [(''label_and_type'', Some (b @ ''##rx_brand'')),
                                       (''concept_id'', c),
                                       (''src_name'', Some (SourceName_RXNORM e)),
                                       (''item_type'', Some ''rx_brand'')],
                               lists = []\<rparr> # items'"
            by simp
          with Cons.IH [OF Inr] cid show ?thesis by simp
        qed
      qed
    qed
  qed
qed

lemma load_brand_concepts_concept_id:
  "load_brand_concepts e r brands = Inr items \<Longrightarrow>
   \<forall>i\<in>set items. map_of (strs i) ''concept_id'' = map_of (strs r) ''concept_id''"
  by (cases "map_of (lists r) ''trade_names''")
    (auto simp: load_brand_concepts_def dest: brand_items_concept_id)

lemma load_record_labelled:
  assumes "load_record e st r = Inr evs" and "has_label r"
  shows "\<exists>r1 items r2.
           get_trade_names e r (precise_ingredient_to_brand st) (ingredient_to_brands st)
             (ingredient_to_sbdf st) = Inr r1 \<and>
           load_brand_concepts e r1 (brand_to_concept_id st) = Inr items \<and>
           r2 = (if map_of (strs r1) ''PIN'' \<noteq> None then del_str ''PIN'' r1 else r1) \<and>
           evs = map Put_item items @
                 (if map_of (strs r2) ''concept_id'' = Some (Some ''rxcui:100213'')
                  then [Breakpoint] else []) @ [Load_therapy r2]"
proof (cases "get_trade_names e r (precise_ingredient_to_brand st) (ingredient_to_brands st)
             (ingredient_to_sbdf st)")
  case (Inl err)
  with assms show ?thesis by (simp add: load_record_def has_label_def)
next
  case (Inr r1)
  note r1 = this
  show ?thesis
  proof (cases "load_brand_concepts e r1 (brand_to_concept_id st)")
    case (Inl err)
    with assms r1 show ?thesis by (simp add: load_record_def has_label_def)
  next
    case (Inr items)
    define r2 where "r2 = (if map_of (strs r1) ''PIN'' \<noteq> None then del_str ''PIN'' r1 else r1)"
    show ?thesis
    proof (cases "map_of (strs r2) ''concept_id''")
      case None
      with assms r1 Inr show ?thesis
        by (simp add: load_record_def has_label_def Let_def r2_def)
    next
      case (Some c)
      with assms r1 Inr have "evs = map Put_item items @
                 (if c = Some ''rxcui:100213'' then [Breakpoint] else []) @ [Load_therapy r2]"
        by (simp add: load_record_def has_label_def Let_def r2_def)
      with r1 Inr Some r2_def show ?thesis by simp
    qed
  qed
qed

lemma strs_del_str_other: "a \<noteq> b \<Longrightarrow> map_of (strs (del_str a r)) b = map_of (strs r) b"
  by (simp add: del_str_def delete_conv')

lemma load_record_events:
  assumes "load_record e st r = Inr evs" and "has_label r"
  shows "\<forall>ev\<in>set evs. event_concept_id ev = None \<or>
            event_concept_id ev = map_of (strs r) ''concept_id''"
    and "\<forall>r'. Load_therapy r' \<in> set evs \<longrightarrow>
            has_label r' \<and> (dup_free (lists r) \<longrightarrow> dup_free (lists r'))"
proof -
  from load_record_labelled [OF assms] obtain r1 items r2 where
    g: "get_trade_names e r (precise_ingredient_to_brand st) (ingredient_to_brands st)
             (ingredient_to_sbdf st) = Inr r1"
    and b: "load_brand_concepts e r1 (brand_to_concept_id st) = Inr items"
    and r2: "r2 = (if map_of (strs r1) ''PIN'' \<noteq> None then del_str ''PIN'' r1 else r1)"
    and evs: "evs = map Put_item items @
                 (if map_of (strs r2) ''concept_id'' = Some (Some ''rxcui:100213'')
                  then [Breakpoint] else []) @ [Load_therapy r2]"
    by blast
  have s1: "strs r1 = strs r" using g by (rule get_trade_names_strs)
  have c2: "map_of (strs r2) ''concept_id'' = map_of (strs r) ''concept_id''"
    unfolding r2 using s1 by (simp add: strs_del_str_other)
  have l2: "has_label r2"
    unfolding r2 has_label_def using s1 assms(2) by (simp add: strs_del_str_other has_label_def)
  have d2: "dup_free (lists r) \<Longrightarrow> dup_free (lists r2)"
    unfolding r2 using get_trade_names_dup_free [OF g] by simp
  from load_brand_concepts_concept_id [OF b] s1
  have ci: "\<forall>i\<in>set items. map_of (strs i) ''concept_id'' = map_of (strs r) ''concept_id''"
    by simp
  show "\<forall>ev\<in>set evs. event_concept_id ev = None \<or>
            event_concept_id ev = map_of (strs r) ''concept_id''"
    unfolding evs using ci c2 by auto
  show "\<forall>r'. Load_therapy r' \<in> set evs \<longrightarrow>
            has_label r' \<and> (dup_free (lists r) \<longrightarrow> dup_free (lists r'))"
    unfolding evs using l2 d2 by auto
qed

lemma load_records_step:
  "load_records e st (r # rs) = Inr evs \<Longrightarrow>
   \<exists>evs1 evs2. load_record e st r = Inr evs1 \<and> load_records e st rs = Inr evs2 \<and> evs = evs1 @ evs2"
  by (cases "load_record e st r"; cases "load_records e st rs") simp_all

lemma load_records_filter:
  "load_records e st rs = load_records e st (filter has_label rs)"
proof (induction rs)
  case Nil
  then show ?case by simp
next
  case (Cons r rs)
  show ?case
  proof (cases "has_label r")
    case True
    with Cons show ?thesis by (simp split: sum.splits)
  next
    case False
    then have "load_record e st r = Inr []" by (rule load_record_unlabelled)
    with False Cons show ?thesis by (simp split: sum.splits)
  qed
qed

lemma load_records_events:
  assumes "load_records e st (map snd ps) = Inr evs"
    and "\<forall>k r. (k, r) \<in> set ps \<longrightarrow> record_ok k r"
  shows "(\<forall>ev\<in>set evs. event_concept_id ev = None \<or>
            (\<exists>k r. (k, r) \<in> set ps \<and> has_label r \<and> event_concept_id ev = Some (Some k))) \<and>
         (\<forall>r'. Load_therapy r' \<in> set evs \<longrightarrow> has_label r' \<and> dup_free (lists r'))"
  using assms
proof (induction ps arbitrary: evs)
  case Nil
  then show ?case by simp
next
  case (Cons p ps)
  obtain k r where p: "p = (k, r)" by (cases p)
  from Cons.prems(1) p have "load_records e st (r # map snd ps) = Inr evs" by simp
  from load_records_step [OF this] obtain evs1 evs2 where
    1: "load_record e st r = Inr evs1" and 2: "load_records e st (map snd ps) = Inr evs2"
    and evs: "evs = evs1 @ evs2"
    by blast
  from Cons.prems(2) p have ok: "record_ok k r" by simp
  have ih: "(\<forall>ev\<in>set evs2. event_concept_id ev = None \<or>
            (\<exists>k r. (k, r) \<in> set ps \<and> has_label r \<and> event_concept_id ev = Some (Some k))) \<and>
         (\<forall>r'. Load_therapy r' \<in> set evs2 \<longrightarrow> has_label r' \<and> dup_free (lists r'))"
    using Cons.IH [OF 2] Cons.prems(2) by simp
  have first: "(\<forall>ev\<in>set evs1. event_concept_id ev = None \<or>
            (has_label r \<and> event_concept_id ev = Some (Some k))) \<and>
         (\<forall>r'. Load_therapy r' \<in> set evs1 \<longrightarrow> has_label r' \<and> dup_free (lists r'))"
  proof (cases "has_label r")
    case False
    with 1 load_record_unlabelled [OF False, of e st] show ?thesis by simp
  next
    case True
    from load_record_events [OF 1 True] ok True show ?thesis
      by (simp add: record_ok_def)
  qed
  show ?case
  proof (intro conjI ballI allI impI)
    fix ev assume "ev \<in> set evs"
    then consider "ev \<in> set evs1" | "ev \<in> set evs2" unfolding evs by auto
    then show "event_concept_id ev = None \<or>
            (\<exists>k r. (k, r) \<in> set (p # ps) \<and> has_label r \<and> event_concept_id ev = Some (Some k))"
    proof cases
      case 1
      with first have "event_concept_id ev = None \<or>
            (has_label r \<and> event_concept_id ev = Some (Some k))" by blast
      then show ?thesis unfolding p by auto
    next
      case 2
      with ih have "event_concept_id ev = None \<or>
            (\<exists>k r. (k, r) \<in> set ps \<and> has_label r \<and> event_concept_id ev = Some (Some k))" by blast
      then show ?thesis by auto
    qed
  next
    fix r' assume "Load_therapy r' \<in> set evs"
    then have "Load_therapy r' \<in> set evs1 \<or> Load_therapy r' \<in> set evs2" unfolding evs by simp
    with first ih show "has_label r'" by blast
  next
    fix r' assume "Load_therapy r' \<in> set evs"
    then have "Load_therapy r' \<in> set evs1 \<or> Load_therapy r' \<in> set evs2" unfolding evs by simp
    with first ih show "dup_free (lists r')" by blast
  qed
qed

lemma rxnorm_transform_data_Inr:
  assumes "rxnorm_transform_data e dfs rows = Inr evs"
  shows "\<exists>st. transform_rows e dfs empty_tables rows = Inr st \<and>
           load_records e st (map snd (records st)) = Inr evs \<and> tables_ok st"
proof (cases "transform_rows e dfs empty_tables rows")
  case (Inl err)
  with assms show ?thesis by (simp add: rxnorm_transform_data_def)
next
  case (Inr st)
  with assms have "load_records e st (map snd (records st)) = Inr evs"
    by (simp add: rxnorm_transform_data_def)
  moreover from Inr tables_ok_empty have "tables_ok st" by (rule tables_ok_transform_rows)
  ultimately show ?thesis using Inr by simp
qed

lemma loaded_records_dup_free:
  assumes "rxnorm_transform_data e dfs rows = Inr evs" and "Load_therapy r \<in> set evs"
    and "map_of (lists r) k = Some vs"
  shows "distinct vs"
proof -
  from rxnorm_transform_data_Inr [OF assms(1)] obtain st where
    l: "load_records e st (map snd (records st)) = Inr evs" and ok: "tables_ok st"
    by blast
  from ok have oks: "\<forall>k r. (k, r) \<in> set (records st) \<longrightarrow> record_ok k r"
    by (simp add: tables_ok_def)
  from load_records_events [OF l oks] assms(2) have "dup_free (lists r)" by blast
  then show ?thesis using assms(3) by (rule dup_free_map_of)
qed

section \<open>The RxNorm linker on the example rows\<close>

lemma aspirin_pass1:
  "transform_rows example_env [] empty_tables aspirin_rows = Inr aspirin_tables"
  by code_simp

lemma aspirin_run:
  "rxnorm_transform_data example_env [] aspirin_rows = Inr [Load_therapy aspirin_record]"
  by code_simp

text \<open>
  Claim C1 as stated fails: on the three rows of the example, the only thing that
  reaches the sink is the record of \<open>rxcui:1\<close> with its label; it has no trade
  names, and no record of type \<open>rx_brand\<close> is written.
\<close>

theorem aspirin_example_counterexample:
  "rxnorm_transform_data example_env [] aspirin_rows =
     Inr [Load_therapy
            \<lparr>strs = [(''concept_id'', Some ''rxcui:1''), (''label'', Some ''Aspirin'')],
             lists = []\<rparr>]"
  by code_simp

text \<open>
  Claim C1, amended.  On the three rows of the example, exactly one record is handed
  to \<open>_load_therapy\<close>; it is the one of concept \<open>rxcui:1\<close>, with label \<open>Aspirin\<close>.  The
  table of brands maps \<open>Bufferin\<close> to \<open>rxcui:3\<close>.  For the record of \<open>rxcui:1\<close> with
  \<open>Bufferin\<close> among its trade names, \<open>_load_brand_concepts\<close> writes exactly one
  record of type \<open>rx_brand\<close>: its \<open>label_and_type\<close> is the entry of the table of
  brands for \<open>Bufferin\<close> followed by \<open>##rx_brand\<close>, and its \<open>concept_id\<close> is
  \<open>rxcui:1\<close>.
\<close>

theorem aspirin_example:
  "(\<exists>evs r. rxnorm_transform_data example_env [] aspirin_rows = Inr evs \<and>
      filter is_load evs = [Load_therapy r] \<and>
      map_of (strs r) ''concept_id'' = Some (Some ''rxcui:1'') \<and>
      map_of (strs r) ''label'' = Some (Some ''Aspirin'')) \<and>
   (\<exists>st. transform_rows example_env [] empty_tables aspirin_rows = Inr st \<and>
      map_of (brand_to_concept_id st) ''Bufferin'' = Some ''rxcui:3'' \<and>
      load_brand_concepts example_env
        \<lparr>strs = [(''concept_id'', Some ''rxcui:1''), (''label'', Some ''Aspirin'')],
         lists = [(''trade_names'', [''Bufferin''])]\<rparr>
        (brand_to_concept_id st) =
      Inr [\<lparr>strs = [(''label_and_type'', Some ''rxcui:3##rx_brand''),
                     (''concept_id'', Some ''rxcui:1''),
                     (''src_name'', Some ''RxNorm''),
                     (''item_type'', Some ''rx_brand'')],
             lists = []\<rparr>])"
proof (intro conjI)
  have "filter is_load [Load_therapy aspirin_record] = [Load_therapy aspirin_record]"
    by simp
  moreover have "map_of (strs aspirin_record) ''concept_id'' = Some (Some ''rxcui:1'')"
    by (simp add: aspirin_record_def)
  moreover have "map_of (strs aspirin_record) ''label'' = Some (Some ''Aspirin'')"
    by (simp add: aspirin_record_def)
  ultimately show "\<exists>evs r. rxnorm_transform_data example_env [] aspirin_rows = Inr evs \<and>
      filter is_load evs = [Load_therapy r] \<and>
      map_of (strs r) ''concept_id'' = Some (Some ''rxcui:1'') \<and>
      map_of (strs r) ''label'' = Some (Some ''Aspirin'')"
    using aspirin_run by blast
next
  have "map_of (brand_to_concept_id aspirin_tables) ''Bufferin'' = Some ''rxcui:3''"
    by (simp add: aspirin_tables_def)
  moreover have "load_brand_concepts example_env
        \<lparr>strs = [(''concept_id'', Some ''rxcui:1''), (''label'', Some ''Aspirin'')],
         lists = [(''trade_names'', [''Bufferin''])]\<rparr>
        (brand_to_concept_id aspirin_tables) =
      Inr [\<lparr>strs = [(''label_and_type'', Some ''rxcui:3##rx_brand''),
                     (''concept_id'', Some ''rxcui:1''),
                     (''src_name'', Some ''RxNorm''),
                     (''item_type'', Some ''rx_brand'')],
             lists = []\<rparr>]"
    by code_simp
  ultimately show "\<exists>st. transform_rows example_env [] empty_tables aspirin_rows = Inr st \<and>
      map_of (brand_to_concept_id st) ''Bufferin'' = Some ''rxcui:3'' \<and>
      load_brand_concepts example_env
        \<lparr>strs = [(''concept_id'', Some ''rxcui:1''), (''label'', Some ''Aspirin'')],
         lists = [(''trade_names'', [''Bufferin''])]\<rparr>
        (brand_to_concept_id st) =
      Inr [\<lparr>strs = [(''label_and_type'', Some ''rxcui:3##rx_brand''),
                     (''concept_id'', Some ''rxcui:1''),
                     (''src_name'', Some ''RxNorm''),
                     (''item_type'', Some ''rx_brand'')],
             lists = []\<rparr>]"
    using aspirin_pass1 by blast
qed

text \<open>
  Claim C2.  The branded drug component of the example, \<open>Aspirin 325 MG [Bufferin]\<close>:
  the strength is stripped, the brand is the text in the last brackets and the
  ingredient is what is left, but \<open>_get_brands\<close> files the ingredient in the list
  kept under the brand, where the claim, the comment at the table, the reader
  \<open>_get_trade_names\<close> and the path of the branded drug forms have the brand in the
  list kept under the ingredient.  The row touches no record.
\<close>

theorem sbdc_row_keyed_by_brand:
  "get_brands
     \<lparr>col0 = ''2'', col11 = ''RXNORM'', col12 = ''SBDC'', col13 = ''2'',
      col14 = ''Aspirin 325 MG [Bufferin]'', col17 = ''''\<rparr> [] =
     [(''Bufferin'', [''Aspirin''])] \<and>
   transform_row example_env [] empty_tables
     \<lparr>col0 = ''2'', col11 = ''RXNORM'', col12 = ''SBDC'', col13 = ''2'',
      col14 = ''Aspirin 325 MG [Bufferin]'', col17 = ''''\<rparr> =
     Inr \<lparr>records = [], ingredient_to_brands = [(''Bufferin'', [''Aspirin''])],
          precise_ingredient_to_brand = [], ingredient_to_sbdf = [],
          brand_to_concept_id = []\<rparr>"
  by code_simp

text \<open>
  Claim C7.  The second pass of a run is the loop over the records that have a
  label.  A record that the first pass leaves without a label contributes nothing:
  its round of the loop returns at once, no record that reaches the sink carries
  its concept id, and it is not handed to \<open>_load_therapy\<close>.
\<close>

theorem unlabelled_records_dropped:
  assumes "transform_rows e drug_forms empty_tables rows = Inr st"
  shows "rxnorm_transform_data e drug_forms rows =
           load_records e st (filter has_label (map snd (records st))) \<and>
         (\<forall>k r. (k, r) \<in> set (records st) \<and> \<not> has_label r \<longrightarrow>
            load_record e st r = Inr [] \<and>
            (\<forall>evs. rxnorm_transform_data e drug_forms rows = Inr evs \<longrightarrow>
               (\<forall>ev\<in>set evs. event_concept_id ev \<noteq> Some (Some k) \<and> ev \<noteq> Load_therapy r)))"
proof (intro conjI allI impI ballI)
  show "rxnorm_transform_data e drug_forms rows =
           load_records e st (filter has_label (map snd (records st)))"
    using assms load_records_filter [of e st "map snd (records st)"]
    by (simp add: rxnorm_transform_data_def)
next
  fix k r assume "(k, r) \<in> set (records st) \<and> \<not> has_label r"
  then show "load_record e st r = Inr []" by (simp add: load_record_unlabelled)
next
  fix k r evs ev
  assume kr: "(k, r) \<in> set (records st) \<and> \<not> has_label r"
    and run: "rxnorm_transform_data e drug_forms rows = Inr evs" and ev: "ev \<in> set evs"
  from assms tables_ok_empty have ok: "tables_ok st" by (rule tables_ok_transform_rows)
  from run assms have l: "load_records e st (map snd (records st)) = Inr evs"
    by (simp add: rxnorm_transform_data_def)
  from ok have oks: "\<forall>k r. (k, r) \<in> set (records st) \<longrightarrow> record_ok k r"
    by (simp add: tables_ok_def)
  note E = load_records_events [OF l oks]
  show "event_concept_id ev \<noteq> Some (Some k)"
  proof
    assume c: "event_concept_id ev = Some (Some k)"
    with E ev obtain k' r' where kr': "(k', r') \<in> set (records st)" "has_label r'"
      "event_concept_id ev = Some (Some k')"
      by fastforce
    with c have "k' = k" by simp
    with kr kr'(1) ok have "r' = r"
      unfolding tables_ok_def using eq_key_imp_eq_value by fast
    with kr kr'(2) show False by simp
  qed
  show "ev \<noteq> Load_therapy r"
  proof
    assume "ev = Load_therapy r"
    with E ev have "has_label r" by blast
    with kr show False by simp
  qed
qed
theorem unlabelled_records_dropped_witness:
  "transform_rows example_env [] empty_tables aspirin_rows = Inr aspirin_tables \<and>
   (''rxcui:3'', bufferin_record) \<in> set (records aspirin_tables) \<and>
   \<not> has_label bufferin_record \<and>
   rxnorm_transform_data example_env [] aspirin_rows = Inr [Load_therapy aspirin_record] \<and>
   Load_therapy aspirin_record \<in> set [Load_therapy aspirin_record] \<and>
   rxnorm_transform_data example_env [] aspirin_rows =
     load_records example_env aspirin_tables (filter has_label (map snd (records aspirin_tables))) \<and>
   load_record example_env aspirin_tables bufferin_record = Inr [] \<and>
   event_concept_id (Load_therapy aspirin_record) \<noteq> Some (Some ''rxcui:3'') \<and>
   Load_therapy aspirin_record \<noteq> Load_therapy bufferin_record"
proof -
  have m: "(''rxcui:3'', bufferin_record) \<in> set (records aspirin_tables)"
    by (simp add: aspirin_tables_def)
  have n: "\<not> has_label bufferin_record"
    by (simp add: has_label_def bufferin_record_def)
  have i: "Load_therapy aspirin_record \<in> set [Load_therapy aspirin_record]"
    by simp
  from unlabelled_records_dropped [OF aspirin_pass1] m n aspirin_run i
  have "rxnorm_transform_data example_env [] aspirin_rows =
     load_records example_env aspirin_tables (filter has_label (map snd (records aspirin_tables)))"
    and "load_record example_env aspirin_tables bufferin_record = Inr []"
    and "event_concept_id (Load_therapy aspirin_record) \<noteq> Some (Some ''rxcui:3'') \<and>
         Load_therapy aspirin_record \<noteq> Load_therapy bufferin_record"
    by blast+
  with aspirin_pass1 m n aspirin_run i show ?thesis by blast
qed

end
